theory Spec2Isabelle
  imports Complex_Main "HOL-Library.Word"
begin

section \<open>Errors, pixels, images and the store of buffers\<close>

text \<open>
  The module \<^verbatim>\<open>dgp/utils/visualization.py\<close> draws on numpy arrays through OpenCV.
  Every raise of the source is a value of \<open>error\<close>: a failed \<^verbatim>\<open>assert\<close> carries its
  message, the other constructors are the Python exceptions of the same name, and
  \<open>CvError\<close> is \<^verbatim>\<open>cv2.error\<close>.
\<close>

datatype error =
    AssertionError string
  | IndexError
  | ValueError
  | ZeroDivisionError
  | CvError

text \<open>
  A pixel is an RGB triple of \<^verbatim>\<open>uint8\<close> channels. An image is an \<open>H \<times> W \<times> 3\<close> array: its
  shape and the pixel stored at each (row, column). Only the pixels with
  \<open>row < img_h\<close> and \<open>col < img_w\<close> belong to the array.
\<close>

type_synonym pixel = "8 word \<times> 8 word \<times> 8 word"

type_synonym point2i = "int \<times> int"

record image =
  img_h :: nat
  img_w :: nat
  img_at :: "nat \<Rightarrow> nat \<Rightarrow> pixel"

text \<open>
  Arrays are objects shared by reference. The store holds every array that exists; an
  address is an index into it. Mutating an array in place replaces the cell at its
  address; allocating a new array appends a cell.
\<close>

type_synonym addr = nat

type_synonym heap = "image list"

definition mutate :: "addr \<Rightarrow> (image \<Rightarrow> image) \<Rightarrow> heap \<Rightarrow> heap" where
  "mutate a f h = h[a := f (h ! a)]"

definition alloc :: "image \<Rightarrow> heap \<Rightarrow> addr \<times> heap" where
  "alloc im h = (length h, h @ [im])"

definition COLOR_RED :: pixel where "COLOR_RED = (255, 0, 0)"
definition COLOR_GREEN :: pixel where "COLOR_GREEN = (0, 255, 0)"
definition COLOR_BLUE :: pixel where "COLOR_BLUE = (0, 0, 255)"
definition COLOR_GRAY :: pixel where "COLOR_GRAY = (100, 100, 100)"
definition COLOR_DARKGRAY :: pixel where "COLOR_DARKGRAY = (50, 50, 50)"
definition COLOR_WHITE :: pixel where "COLOR_WHITE = (255, 255, 255)"

text \<open>
  \<^verbatim>\<open>int(x)\<close>, \<^verbatim>\<open>np.int32(x)\<close> and \<^verbatim>\<open>astype(int)\<close> truncate towards zero. Real-valued
  inputs are rationals here; floating-point rounding is not part of the model.
\<close>

definition py_int :: "rat \<Rightarrow> int" where
  "py_int q = (if 0 \<le> q then \<lfloor>q\<rfloor> else \<lceil>q\<rceil>)"

text \<open>Truthiness of an optional list: \<^verbatim>\<open>None\<close> and the empty list are false.\<close>

fun truthy :: "'a list option \<Rightarrow> bool" where
  "truthy None = False"
| "truthy (Some xs) = (xs \<noteq> [])"


section \<open>The drawing library\<close>

text \<open>
  OpenCV is not part of the repository. Which pixels a stroke covers is a parameter
  (the record \<open>raster\<close>); what a stroke does to the covered pixels is modelled below.

  Modelled from the spec: the image-drawing primitives (filled rectangle, polyline,
  line, circle, text rendering, resize). \<open>polylines_px pts closed thickness\<close>,
  \<open>line_px p q thickness\<close>, \<open>circle_px center radius thickness\<close> and
  \<open>rectangle_px p q thickness\<close> list the (x, y) positions a stroke covers;
  \<open>text_draw\<close> gives the pixels of the array after a label has been rendered (the
  anti-aliased line type blends with what is there); \<open>resample\<close> gives the pixels
  of a resized array.
\<close>

record raster =
  polylines_px :: "point2i list list \<Rightarrow> bool \<Rightarrow> int \<Rightarrow> point2i list"
  line_px :: "point2i \<Rightarrow> point2i \<Rightarrow> int \<Rightarrow> point2i list"
  circle_px :: "point2i \<Rightarrow> int \<Rightarrow> int \<Rightarrow> point2i list"
  rectangle_px :: "point2i \<Rightarrow> point2i \<Rightarrow> int \<Rightarrow> point2i list"
  text_draw :: "string \<Rightarrow> point2i \<Rightarrow> rat \<Rightarrow> pixel \<Rightarrow> int \<Rightarrow> bool \<Rightarrow> image \<Rightarrow> nat \<Rightarrow> nat \<Rightarrow> pixel"
  resample :: "image \<Rightarrow> nat \<Rightarrow> nat \<Rightarrow> nat \<Rightarrow> nat \<Rightarrow> pixel"

text \<open>
  A stroke without anti-aliasing overwrites every covered pixel that lies inside the
  array with the colour and clips the rest.
\<close>

definition paint :: "point2i list \<Rightarrow> pixel \<Rightarrow> image \<Rightarrow> image" where
  "paint fp col im =
     im\<lparr>img_at := (\<lambda>r c. if r < img_h im \<and> c < img_w im \<and> (int c, int r) \<in> set fp
                          then col else img_at im r c)\<rparr>"

definition cv2_polylines ::
  "raster \<Rightarrow> addr \<Rightarrow> point2i list list \<Rightarrow> bool \<Rightarrow> pixel \<Rightarrow> int \<Rightarrow> heap \<Rightarrow> heap" where
  "cv2_polylines R img pts isClosed color thickness =
     mutate img (paint (polylines_px R pts isClosed thickness) color)"

definition cv2_line ::
  "raster \<Rightarrow> addr \<Rightarrow> point2i \<Rightarrow> point2i \<Rightarrow> pixel \<Rightarrow> int \<Rightarrow> heap \<Rightarrow> heap" where
  "cv2_line R img p q color thickness = mutate img (paint (line_px R p q thickness) color)"

text \<open>
  The library rejects an array without pixels and a negative radius. An image passed
  by a caller has pixels; the canvas buffer has the size the constructor computes and
  can be empty, and the first primitive called on it is the circle, which carries the
  check. The other strokes on the canvas follow a circle that has succeeded.
\<close>

definition cv2_circle ::
  "raster \<Rightarrow> addr \<Rightarrow> point2i \<Rightarrow> int \<Rightarrow> pixel \<Rightarrow> int \<Rightarrow> heap \<Rightarrow> error + heap" where
  "cv2_circle R img center radius color thickness h =
     (if img_h (h ! img) = 0 \<or> img_w (h ! img) = 0 \<or> radius < 0 then Inl CvError
      else Inr (mutate img (paint (circle_px R center radius thickness) color) h))"

definition cv2_rectangle ::
  "raster \<Rightarrow> addr \<Rightarrow> point2i \<Rightarrow> point2i \<Rightarrow> pixel \<Rightarrow> int \<Rightarrow> heap \<Rightarrow> heap" where
  "cv2_rectangle R img p q color thickness =
     mutate img (paint (rectangle_px R p q thickness) color)"

definition render_text ::
  "raster \<Rightarrow> string \<Rightarrow> point2i \<Rightarrow> rat \<Rightarrow> pixel \<Rightarrow> int \<Rightarrow> bool \<Rightarrow> image \<Rightarrow> image" where
  "render_text R text org fontScale color thickness aa im =
     im\<lparr>img_at := text_draw R text org fontScale color thickness aa im\<rparr>"

definition cv2_putText ::
  "raster \<Rightarrow> addr \<Rightarrow> string \<Rightarrow> point2i \<Rightarrow> rat \<Rightarrow> pixel \<Rightarrow> int \<Rightarrow> bool \<Rightarrow> heap \<Rightarrow> heap" where
  "cv2_putText R img text org fontScale color thickness aa =
     mutate img (render_text R text org fontScale color thickness aa)"


section \<open>The 2D box renderer\<close>

text \<open>
  A box is \<open>(x, y, w, h)\<close>. \<^verbatim>\<open>np.int32([[x, y], [x + w, y], [x + w, y + h], [x, y + h]])\<close>
  gives its four corners, truncated to integers.
\<close>

type_synonym bbox2d = "rat \<times> rat \<times> rat \<times> rat"

fun box_corners :: "bbox2d \<Rightarrow> point2i list" where
  "box_corners (x, y, w, h) =
     [(py_int x, py_int y), (py_int (x + w), py_int y),
      (py_int (x + w), py_int (y + h)), (py_int x, py_int (y + h))]"

text \<open>
  The loop \<^verbatim>\<open>for idx, box in enumerate(boxes): cv2.polylines(img, [box], True, colors[idx], thickness=2)\<close>.
\<close>

definition draw_boxes :: "raster \<Rightarrow> addr \<Rightarrow> point2i list list \<Rightarrow> pixel list \<Rightarrow> heap \<Rightarrow> heap" where
  "draw_boxes R img boxes colors h =
     foldl (\<lambda>h' (idx, box). cv2_polylines R img [box] True (colors ! idx) 2 h') h
       (enumerate 0 boxes)"

text \<open>
  The loop \<^verbatim>\<open>for idx, box in enumerate(boxes): cv2.putText(img, texts[idx], tuple(box[0]),
  cv2.FONT_HERSHEY_SIMPLEX, 1, COLOR_WHITE, 2, cv2.LINE_AA)\<close>.
\<close>

definition draw_texts :: "raster \<Rightarrow> addr \<Rightarrow> point2i list list \<Rightarrow> string list \<Rightarrow> heap \<Rightarrow> heap" where
  "draw_texts R img boxes texts h =
     foldl (\<lambda>h' (idx, box). cv2_putText R img (texts ! idx) (box ! 0) 1 COLOR_WHITE 2 True h') h
       (enumerate 0 boxes)"

text \<open>
  \<^verbatim>\<open>render_bbox2d_on_image(img, bboxes2d, colors=None, texts=None)\<close>. The result is the
  returned handle or the error raised, together with the store as the call leaves it
  (an assertion that fails after the boxes were drawn leaves them drawn).
\<close>

definition render_bbox2d_on_image ::
  "raster \<Rightarrow> addr \<Rightarrow> bbox2d list \<Rightarrow> pixel list option \<Rightarrow> string list option \<Rightarrow> heap
     \<Rightarrow> (error + addr) \<times> heap" where
  "render_bbox2d_on_image R img bboxes2d colors texts h =
     (let boxes = map box_corners bboxes2d in
      case (case colors of
              None \<Rightarrow> Inr (cv2_polylines R img boxes True COLOR_RED 2 h)
            | Some cs \<Rightarrow>
                if length boxes = length cs then Inr (draw_boxes R img boxes cs h)
                else Inl (AssertionError ''len(boxes) != len(colors)'')) of
        Inl e \<Rightarrow> (Inl e, h)
      | Inr h1 \<Rightarrow>
          if truthy texts then
            (if length boxes = length (the texts)
             then (Inr img, draw_texts R img boxes (the texts) h1)
             else (Inl (AssertionError ''len(boxes) != len(texts)''), h1))
          else (Inr img, h1))"

section \<open>The status bar\<close>

text \<open>
  \<^verbatim>\<open>print_status(image, text)\<close>: a filled rectangle over the bottom 40 rows, then the
  text (default line type, not anti-aliased). The same handle is returned.
\<close>

definition print_status :: "raster \<Rightarrow> addr \<Rightarrow> string \<Rightarrow> heap \<Rightarrow> (error + addr) \<times> heap" where
  "print_status R img text h =
     (let H = int (img_h (h ! img)); W = int (img_w (h ! img));
          status_xmax = W;
          status_ymin = H - 40;
          text_offset = 5;
          h1 = cv2_rectangle R img (0, status_ymin) (status_xmax, H) COLOR_DARKGRAY (- 1) h;
          h2 = cv2_putText R img text (text_offset, H - text_offset) (4 / 5) COLOR_WHITE 1 False h1
      in (Inr img, h2))"


section \<open>Array helpers\<close>

definition black :: "nat \<Rightarrow> nat \<Rightarrow> image" where
  "black hh ww = \<lparr>img_h = hh, img_w = ww, img_at = (\<lambda>r c. (0, 0, 0))\<rparr>"

text \<open>\<^verbatim>\<open>np.zeros((h, w, 3), dtype=np.uint8)\<close> rejects a negative dimension.\<close>

definition np_zeros :: "int \<Rightarrow> int \<Rightarrow> error + image" where
  "np_zeros hh ww = (if hh < 0 \<or> ww < 0 then Inl ValueError else Inr (black (nat hh) (nat ww)))"

definition np_zeros_like :: "image \<Rightarrow> image" where
  "np_zeros_like im = black (img_h im) (img_w im)"

text \<open>
  An integer index into an axis of length \<open>n\<close>: a negative index counts from the end,
  anything outside \<open>-n \<le> i < n\<close> raises \<^verbatim>\<open>IndexError\<close>.
\<close>

definition np_index :: "nat \<Rightarrow> int \<Rightarrow> error + nat" where
  "np_index n i =
     (if 0 \<le> i \<and> i < int n then Inr (nat i)
      else if - int n \<le> i \<and> i < 0 then Inr (nat (i + int n))
      else Inl IndexError)"

definition set_px :: "nat \<Rightarrow> nat \<Rightarrow> pixel \<Rightarrow> image \<Rightarrow> image" where
  "set_px r c v im = im\<lparr>img_at := (img_at im)(r := (img_at im r)(c := v))\<rparr>"

text \<open>
  The assignment \<^verbatim>\<open>a[rows, cols] = values\<close> with integer index arrays: one write per
  index pair, in order, so that a repeated position keeps the last value. The points
  are (x, y) = (column, row).
\<close>

fun setitem_points :: "addr \<Rightarrow> (point2i \<times> pixel) list \<Rightarrow> heap \<Rightarrow> (error + unit) \<times> heap" where
  "setitem_points a [] h = (Inr (), h)"
| "setitem_points a (((u, v), col) # ps) h =
     (case np_index (img_h (h ! a)) v of
        Inl e \<Rightarrow> (Inl e, h)
      | Inr r \<Rightarrow>
          (case np_index (img_w (h ! a)) u of
             Inl e \<Rightarrow> (Inl e, h)
           | Inr c \<Rightarrow> setitem_points a ps (mutate a (set_px r c col) h)))"

text \<open>Boolean-mask indexing \<^verbatim>\<open>xs[mask]\<close>.\<close>

definition mask_select :: "bool list \<Rightarrow> 'a list \<Rightarrow> 'a list" where
  "mask_select keep xs = map snd (filter fst (zip keep xs))"

text \<open>\<^verbatim>\<open>range(start, stop, step)\<close>; a zero step raises \<^verbatim>\<open>ValueError\<close>.\<close>

definition py_range :: "int \<Rightarrow> int \<Rightarrow> int \<Rightarrow> error + int list" where
  "py_range start stop step =
     (if step = 0 then Inl ValueError
      else if 0 < step
        then Inr (map (\<lambda>k. start + int k * step) [0..<nat ((stop - start + step - 1) div step)])
        else Inr (map (\<lambda>k. start + int k * step) [0..<nat ((start - stop - step - 1) div (- step))]))"

text \<open>The slice \<^verbatim>\<open>xs[i:j]\<close>: negative bounds count from the end, all bounds are clamped.\<close>

definition py_slice :: "'a list \<Rightarrow> int \<Rightarrow> int \<Rightarrow> 'a list" where
  "py_slice xs i j =
     (let n = int (length xs);
          clamp = (\<lambda>k. if k < 0 then max 0 (k + n) else min k n);
          a = clamp i; b = clamp j
      in take (nat (b - a)) (drop (nat a) xs))"

text \<open>A list comprehension whose body may raise.\<close>

fun map_err :: "('a \<Rightarrow> error + 'b) \<Rightarrow> 'a list \<Rightarrow> error + 'b list" where
  "map_err f [] = Inr []"
| "map_err f (x # xs) =
     (case f x of
        Inl e \<Rightarrow> Inl e
      | Inr y \<Rightarrow> (case map_err f xs of Inl e \<Rightarrow> Inl e | Inr ys \<Rightarrow> Inr (y # ys)))"

text \<open>
  \<^verbatim>\<open>np.hstack\<close> and \<^verbatim>\<open>np.vstack\<close>: concatenation along the columns and along the rows.
  An empty list and arrays that disagree on the other dimension raise \<^verbatim>\<open>ValueError\<close>.
\<close>

fun hcat_at :: "image list \<Rightarrow> nat \<Rightarrow> nat \<Rightarrow> pixel" where
  "hcat_at [] r c = (0, 0, 0)"
| "hcat_at (t # ts) r c = (if c < img_w t then img_at t r c else hcat_at ts r (c - img_w t))"

fun vcat_at :: "image list \<Rightarrow> nat \<Rightarrow> nat \<Rightarrow> pixel" where
  "vcat_at [] r c = (0, 0, 0)"
| "vcat_at (t # ts) r c = (if r < img_h t then img_at t r c else vcat_at ts (r - img_h t) c)"

definition np_hstack :: "image list \<Rightarrow> error + image" where
  "np_hstack tiles =
     (case tiles of
        [] \<Rightarrow> Inl ValueError
      | t # ts \<Rightarrow>
          if list_all (\<lambda>t'. img_h t' = img_h t) ts
          then Inr \<lparr>img_h = img_h t, img_w = sum_list (map img_w tiles), img_at = hcat_at tiles\<rparr>
          else Inl ValueError)"

definition np_vstack :: "image list \<Rightarrow> error + image" where
  "np_vstack tiles =
     (case tiles of
        [] \<Rightarrow> Inl ValueError
      | t # ts \<Rightarrow>
          if list_all (\<lambda>t'. img_w t' = img_w t) ts
          then Inr \<lparr>img_h = sum_list (map img_h tiles), img_w = img_w t, img_at = vcat_at tiles\<rparr>
          else Inl ValueError)"

text \<open>
  Modelled from the spec: resize to the target size \<open>dsize = (width, height)\<close>. The
  library rejects an empty source and an empty target size.
\<close>

definition cv2_resize :: "raster \<Rightarrow> image \<Rightarrow> int \<times> int \<Rightarrow> error + image" where
  "cv2_resize R im dsize =
     (case dsize of (w, hh) \<Rightarrow>
        if img_h im = 0 \<or> img_w im = 0 \<or> w \<le> 0 \<or> hh \<le> 0 then Inl CvError
        else Inr \<lparr>img_h = nat hh, img_w = nat w, img_at = resample R im (nat hh) (nat w)\<rparr>)"

text \<open>
  Modelled from the spec: border padding with a constant zero border,
  \<^verbatim>\<open>cv2.copyMakeBorder(im, top, bottom, left, right, cv2.BORDER_CONSTANT, 0)\<close>. The
  library rejects a negative border width.
\<close>

definition cv2_copyMakeBorder :: "image \<Rightarrow> int \<Rightarrow> int \<Rightarrow> int \<Rightarrow> int \<Rightarrow> error + image" where
  "cv2_copyMakeBorder im btop bbottom bleft bright =
     (if btop < 0 \<or> bbottom < 0 \<or> bleft < 0 \<or> bright < 0 then Inl CvError
      else Inr \<lparr>img_h = img_h im + nat btop + nat bbottom,
                img_w = img_w im + nat bleft + nat bright,
                img_at = (\<lambda>r c. if nat btop \<le> r \<and> r < nat btop + img_h im \<and>
                                   nat bleft \<le> c \<and> c < nat bleft + img_w im
                                then img_at im (r - nat btop) (c - nat bleft) else (0, 0, 0))\<rparr>)"

text \<open>
  Modelled from the spec: morphological dilation with a \<open>5 \<times> 5\<close> structuring element of
  ones: every channel becomes the maximum over the neighbourhood; positions outside
  the array do not contribute.
\<close>

definition pmax :: "pixel \<Rightarrow> pixel \<Rightarrow> pixel" where
  "pmax p q = (case p of (r1, g1, b1) \<Rightarrow> case q of (r2, g2, b2) \<Rightarrow> (max r1 r2, max g1 g2, max b1 b2))"

definition nbrs :: "nat \<Rightarrow> nat \<Rightarrow> nat list" where
  "nbrs k n = filter (\<lambda>j. j < n) [k - 2 ..< k + 3]"

definition cv2_dilate5 :: "image \<Rightarrow> image" where
  "cv2_dilate5 im =
     im\<lparr>img_at := (\<lambda>r c. fold pmax
                      (concat (map (\<lambda>r'. map (\<lambda>c'. img_at im r' c') (nbrs c (img_w im)))
                                   (nbrs r (img_h im))))
                      (0, 0, 0))\<rparr>"

text \<open>\<^verbatim>\<open>np.maximum(a, b)\<close> on arrays of one shape: a new array, the maximum per channel.\<close>

definition np_maximum :: "image \<Rightarrow> image \<Rightarrow> error + image" where
  "np_maximum a b =
     (if img_h a = img_h b \<and> img_w a = img_w b
      then Inr \<lparr>img_h = img_h a, img_w = img_w a,
                img_at = (\<lambda>r c. pmax (img_at a r c) (img_at b r c))\<rparr>
      else Inl ValueError)"


section \<open>The mosaic assembler\<close>

text \<open>
  \<^verbatim>\<open>np.ceil(np.sqrt(N)).astype(int)\<close>: the least \<open>k\<close> with \<open>N \<le> k\<^sup>2\<close>, and
  \<^verbatim>\<open>np.ceil(N * 1. / grid_width)\<close>: the quotient rounded up.
\<close>

definition ceil_sqrt :: "nat \<Rightarrow> nat" where
  "ceil_sqrt n = length (takeWhile (\<lambda>k. k * k < n) [0..<n])"

definition ceil_div :: "int \<Rightarrow> int \<Rightarrow> int" where
  "ceil_div n g = - ((- n) div g)"

text \<open>
  The loop \<^verbatim>\<open>for j in range(grid_width * grid_height)\<close>: an input image is resized to
  the target shape, a cell beyond the inputs is \<^verbatim>\<open>np.zeros_like(mosaic_items[-1])\<close>.
\<close>

fun mosaic_loop ::
  "raster \<Rightarrow> image list \<Rightarrow> int \<times> int \<Rightarrow> int list \<Rightarrow> image list \<Rightarrow> error + image list" where
  "mosaic_loop R items target_shape [] mosaic_items = Inr mosaic_items"
| "mosaic_loop R items target_shape (j # js) mosaic_items =
     (if j < int (length items) then
        (case cv2_resize R (items ! nat j) target_shape of
           Inl e \<Rightarrow> Inl e
         | Inr im \<Rightarrow> mosaic_loop R items target_shape js (mosaic_items @ [im]))
      else
        (if mosaic_items = [] then Inl IndexError
         else mosaic_loop R items target_shape js
                (mosaic_items @ [np_zeros_like (last mosaic_items)])))"

definition im_pad :: "int \<Rightarrow> image \<Rightarrow> error + image" where
  "im_pad pad im = cv2_copyMakeBorder im pad pad pad pad"

text \<open>
  \<^verbatim>\<open>mosaic(items, scale=1.0, pad=3, grid_width=None)\<close>. The inputs are only read and the
  result is a new array, so the function is modelled on the arrays themselves.
\<close>

definition mosaic :: "raster \<Rightarrow> image list \<Rightarrow> rat \<Rightarrow> int \<Rightarrow> int option \<Rightarrow> error + image" where
  "mosaic R items scale pad grid_width =
     (let N = int (length items) in
      if \<not> N > 0 then Inl (AssertionError ''No items to mosaic!'')
      else
        let gw = (case grid_width of
                    None \<Rightarrow> int (ceil_sqrt (length items))
                  | Some g \<Rightarrow> if g \<noteq> 0 then g else int (ceil_sqrt (length items)));
            gh = ceil_div N gw;
            input_size = (img_h (items ! 0), img_w (items ! 0));
            target_shape = (py_int (of_nat (snd input_size) * scale),
                            py_int (of_nat (fst input_size) * scale))
        in case py_range 0 (gw * gh) 1 of
             Inl e \<Rightarrow> Inl e
           | Inr js \<Rightarrow>
          (case mosaic_loop R items target_shape js [] of
             Inl e \<Rightarrow> Inl e
           | Inr tiles \<Rightarrow>
          (case map_err (im_pad pad) tiles of
             Inl e \<Rightarrow> Inl e
           | Inr padded \<Rightarrow>
          (case py_range 0 (int (length padded)) gw of
             Inl e \<Rightarrow> Inl e
           | Inr starts \<Rightarrow>
          (case map_err (\<lambda>j. np_hstack (py_slice padded j (j + gw))) starts of
             Inl e \<Rightarrow> Inl e
           | Inr hstack \<Rightarrow>
               if length hstack > 1 then np_vstack hstack
               else (case hstack of [] \<Rightarrow> Inl IndexError | m # _ \<Rightarrow> Inr m))))))"


section \<open>The point cloud on an image\<close>

text \<open>
  Modelled from the spec: the camera collaborator (\<^verbatim>\<open>dgp.utils.camera.Camera\<close>), which
  exposes the extrinsic transform \<open>p_cw\<close> from the world frame into the camera frame
  and the projection \<open>project\<close> of a camera-frame point to pixel coordinates, built
  from the intrinsic matrix alone. Both act point by point.
\<close>

type_synonym point3 = "rat \<times> rat \<times> rat"

record camera =
  p_cw :: "point3 \<Rightarrow> point3"
  project :: "point3 \<Rightarrow> rat \<times> rat"

text \<open>
  The colour of a point is computed from its depth, the depths of all points and the
  percentile by numpy and the colour map of matplotlib; it is the parameter \<open>cmap\<close>.
\<close>

type_synonym depth_colors = "rat list \<Rightarrow> rat \<Rightarrow> rat \<Rightarrow> pixel"

text \<open>
  The mask \<^verbatim>\<open>np.logical_and.reduce([(uv >= 0).all(axis=1), uv[:, 0] < W, uv[:, 1] < H, z_c > 0])\<close>
  for one point.
\<close>

definition in_view_image :: "nat \<Rightarrow> nat \<Rightarrow> rat \<times> rat \<Rightarrow> rat \<Rightarrow> bool" where
  "in_view_image H W uv z =
     (case uv of (u, v) \<Rightarrow> (0 \<le> u \<and> 0 \<le> v) \<and> u < of_nat W \<and> v < of_nat H \<and> 0 < z)"

definition astype_int :: "rat \<times> rat \<Rightarrow> point2i" where
  "astype_int uv = (case uv of (u, v) \<Rightarrow> (py_int u, py_int v))"

text \<open>
  \<^verbatim>\<open>render_pointcloud_on_image(img, camera, Xw, colormap='jet', percentile=80)\<close>.
  \<^verbatim>\<open>np.zeros_like\<close>, \<^verbatim>\<open>cv2.dilate\<close> and \<^verbatim>\<open>np.maximum\<close> each return a new array.
\<close>

definition render_pointcloud_on_image ::
  "depth_colors \<Rightarrow> addr \<Rightarrow> camera \<Rightarrow> point3 list \<Rightarrow> rat \<Rightarrow> heap \<Rightarrow> (error + addr) \<times> heap" where
  "render_pointcloud_on_image cmap img cam Xw percentile h =
     (let Xc = map (p_cw cam) Xw;
          uv = map (project cam) Xc;
          z_c = map (\<lambda>(x, y, z). z) Xc;
          colors = map (cmap z_c percentile) z_c;
          H = img_h (h ! img); W = img_w (h ! img);
          (vis, h1) = alloc (np_zeros_like (h ! img)) h;
          in_view = map2 (in_view_image H W) uv z_c;
          uv' = map astype_int (mask_select in_view uv);
          colors' = mask_select in_view colors
      in case setitem_points vis (zip uv' colors') h1 of
           (Inl e, h2) \<Rightarrow> (Inl e, h2)
         | (Inr _, h2) \<Rightarrow>
             (let (vis', h3) = alloc (cv2_dilate5 (h2 ! vis)) h2
              in case np_maximum (h3 ! vis') (h3 ! img) of
                   Inl e \<Rightarrow> (Inl e, h3)
                 | Inr out \<Rightarrow> (case alloc out h3 of (res, h4) \<Rightarrow> (Inr res, h4))))"


section \<open>The bird's-eye-view canvas\<close>

record BEVImage =
  metric_width :: rat
  metric_height :: rat
  pixels_per_meter :: rat
  xaxis :: int
  yaxis :: int
  center_pixel :: point2i
  data :: addr

text \<open>
  The loop of the constructor that draws the polar grid, one circle per step; a circle
  that the library rejects ends the loop with its error.
\<close>

fun polar_loop ::
  "raster \<Rightarrow> addr \<Rightarrow> point2i \<Rightarrow> rat \<Rightarrow> int \<Rightarrow> int list \<Rightarrow> heap \<Rightarrow> (error + unit) \<times> heap" where
  "polar_loop R d center ppm polar_step_size_meters [] h = (Inr (), h)"
| "polar_loop R d center ppm polar_step_size_meters (i # steps) h =
     (case cv2_circle R d center (py_int (of_int i * of_int polar_step_size_meters * ppm))
             (50, 50, 50) 1 h of
        Inl e \<Rightarrow> (Inl e, h)
      | Inr h' \<Rightarrow> polar_loop R d center ppm polar_step_size_meters steps h')"

text \<open>
  \<^verbatim>\<open>BEVImage.__init__\<close>. \<^verbatim>\<open>np.zeros\<close> rejects a negative dimension, the floor
  division by \<^verbatim>\<open>polar_step_size_meters\<close> raises \<^verbatim>\<open>ZeroDivisionError\<close> for a zero
  step, and a circle on an empty raster raises \<^verbatim>\<open>cv2.error\<close>.
\<close>

definition BEVImage_init ::
  "raster \<Rightarrow> rat \<Rightarrow> rat \<Rightarrow> rat \<Rightarrow> int \<Rightarrow> int \<Rightarrow> int \<Rightarrow> heap \<Rightarrow> (error + BEVImage) \<times> heap" where
  "BEVImage_init R mw mh ppm polar_step_size_meters xa ya h =
     (if \<not> xa \<noteq> ya then (Inl (AssertionError ''Provide different x and y axis coordinates''), h)
      else
        let center = (py_int (mw * ppm) div 2, py_int (mh * ppm) div 2)
        in case np_zeros (py_int (mh * ppm)) (py_int (mw * ppm)) of
             Inl e \<Rightarrow> (Inl e, h)
           | Inr z \<Rightarrow>
               (case alloc z h of (d, h1) \<Rightarrow>
                  if polar_step_size_meters = 0 then (Inl ZeroDivisionError, h1)
                  else
                    (case py_range 1 (py_int (max mw mh) div polar_step_size_meters) 1 of
                       Inl e \<Rightarrow> (Inl e, h1)
                     | Inr steps \<Rightarrow>
                         (case polar_loop R d center ppm polar_step_size_meters steps h1 of
                            (Inl e, h2) \<Rightarrow> (Inl e, h2)
                          | (Inr _, h2) \<Rightarrow>
                              (Inr \<lparr>metric_width = mw, metric_height = mh,
                                    pixels_per_meter = ppm, xaxis = xa, yaxis = ya,
                                    center_pixel = center, data = d\<rparr>, h2)))))"

text \<open>The column \<^verbatim>\<open>points[:, axis]\<close> of an \<open>N \<times> 3\<close> array, for one row.\<close>

definition coord :: "nat \<Rightarrow> point3 \<Rightarrow> rat" where
  "coord k p = (case p of (x, y, z) \<Rightarrow> if k = 0 then x else if k = 1 then y else z)"

text \<open>
  The pixel coordinates of a point: \<^verbatim>\<open>center_pixel[0] + x * pixels_per_meter\<close> and
  \<^verbatim>\<open>center_pixel[1] - y * pixels_per_meter\<close>.
\<close>

definition to_pixel :: "BEVImage \<Rightarrow> nat \<Rightarrow> nat \<Rightarrow> point3 \<Rightarrow> rat \<times> rat" where
  "to_pixel self xk yk p =
     (of_int (fst (center_pixel self)) + coord xk p * pixels_per_meter self,
      of_int (snd (center_pixel self)) - coord yk p * pixels_per_meter self)"

text \<open>
  The mask \<^verbatim>\<open>np.logical_and.reduce([(point_cloud2d >= 0).all(axis=1), point_cloud2d[:, 0] < W,
  point_cloud2d[:, 1] < H])\<close> for one point.
\<close>

definition in_view_bev :: "nat \<Rightarrow> nat \<Rightarrow> rat \<times> rat \<Rightarrow> bool" where
  "in_view_bev H W uv = (case uv of (u, v) \<Rightarrow> (0 \<le> u \<and> 0 \<le> v) \<and> u < of_nat W \<and> v < of_nat H)"

text \<open>\<^verbatim>\<open>BEVImage.render_point_cloud\<close>; the points are rows of floating-point coordinates.\<close>

definition render_point_cloud :: "BEVImage \<Rightarrow> point3 list \<Rightarrow> heap \<Rightarrow> (error + unit) \<times> heap" where
  "render_point_cloud self point_cloud h =
     (case np_index 3 (xaxis self) of
        Inl e \<Rightarrow> (Inl e, h)
      | Inr xk \<Rightarrow>
     (case np_index 3 (yaxis self) of
        Inl e \<Rightarrow> (Inl e, h)
      | Inr yk \<Rightarrow>
          (let point_cloud2d = map (to_pixel self xk yk) point_cloud;
               H = img_h (h ! data self); W = img_w (h ! data self);
               uv = map astype_int point_cloud2d;
               in_view = map (in_view_bev H W) point_cloud2d;
               uv' = mask_select in_view uv
           in setitem_points (data self) (map (\<lambda>p. (p, (128, 128, 128))) uv') h)))"

text \<open>
  A 3D box is the array of its corners (\<^verbatim>\<open>bbox.corners\<close>, one row per corner).
  \<^verbatim>\<open>np.mean(corners2d, axis=0).astype(np.int32)\<close> is the truncated mean of the rows.
\<close>

type_synonym bbox3d = "point3 list"

definition mean_point :: "(rat \<times> rat) list \<Rightarrow> point2i" where
  "mean_point ps =
     (py_int (sum_list (map fst ps) / of_nat (length ps)),
      py_int (sum_list (map snd ps) / of_nat (length ps)))"

text \<open>
  The body of the loop over the boxes. An axis that is no column of the corners
  raises \<^verbatim>\<open>IndexError\<close>, the circle on an empty canvas raises \<^verbatim>\<open>cv2.error\<close>,
  reading a corner row that the box does not have raises \<^verbatim>\<open>IndexError\<close>, as does
  a label index beyond the labels; what was drawn before stays drawn.
\<close>

definition draw_bbox3d ::
  "raster \<Rightarrow> BEVImage \<Rightarrow> pixel list \<Rightarrow> string list option \<Rightarrow> nat \<Rightarrow> bbox3d \<Rightarrow> heap
     \<Rightarrow> (error + unit) \<times> heap" where
  "draw_bbox3d R self colors texts bidx corners h =
     (case np_index 3 (xaxis self) of
        Inl e \<Rightarrow> (Inl e, h)
      | Inr xk \<Rightarrow>
     (case np_index 3 (yaxis self) of
        Inl e \<Rightarrow> (Inl e, h)
      | Inr yk \<Rightarrow>
          (let corners2d_f = map (to_pixel self xk yk) corners;
               center = mean_point corners2d_f;
               corners2d = map astype_int corners2d_f;
               d = data self
           in case cv2_circle R d center 1 COLOR_GREEN 1 h of
                Inl e \<Rightarrow> (Inl e, h)
              | Inr h1 \<Rightarrow>
             (if length corners2d < 2 then (Inl IndexError, h1)
              else
                let h2 = cv2_line R d center
                           ((fst (corners2d ! 0) + fst (corners2d ! 1)) div 2,
                            (snd (corners2d ! 0) + snd (corners2d ! 1)) div 2) COLOR_WHITE 2 h1;
                    h3 = cv2_line R d (corners2d ! 0) (corners2d ! 1) (colors ! 0) 2 h2
                in if length corners2d < 5 then (Inl IndexError, h3)
                   else
                     let h4 = cv2_line R d (corners2d ! 3) (corners2d ! 4) (colors ! 3) 2 h3
                     in if length corners2d < 6 then (Inl IndexError, h4)
                        else
                          let h5 = cv2_line R d (corners2d ! 1) (corners2d ! 5) (colors ! 3) 2 h4;
                              h6 = cv2_line R d (corners2d ! 4) (corners2d ! 5) (colors ! 2) 2 h5
                          in if truthy texts then
                               (if bidx < length (the texts)
                                then (Inr (), cv2_putText R d (the texts ! bidx) (corners2d ! 0)
                                                (1 / 2) COLOR_WHITE 2 True h6)
                                else (Inl IndexError, h6))
                             else (Inr (), h6)))))"

fun render_bboxes_loop ::
  "raster \<Rightarrow> BEVImage \<Rightarrow> pixel list \<Rightarrow> string list option \<Rightarrow> nat \<Rightarrow> bbox3d list \<Rightarrow> heap
     \<Rightarrow> (error + unit) \<times> heap" where
  "render_bboxes_loop R self colors texts bidx [] h = (Inr (), h)"
| "render_bboxes_loop R self colors texts bidx (bbox # rest) h =
     (case draw_bbox3d R self colors texts bidx bbox h of
        (Inl e, h') \<Rightarrow> (Inl e, h')
      | (Inr _, h') \<Rightarrow> render_bboxes_loop R self colors texts (Suc bidx) rest h')"

text \<open>\<^verbatim>\<open>BEVImage.render_bounding_box_3d(bboxes3d, color=None, texts=None)\<close>.\<close>

definition render_bounding_box_3d ::
  "raster \<Rightarrow> BEVImage \<Rightarrow> bbox3d list \<Rightarrow> pixel option \<Rightarrow> string list option \<Rightarrow> heap
     \<Rightarrow> (error + unit) \<times> heap" where
  "render_bounding_box_3d R self bboxes3d color texts h =
     (let colors = (case color of
                      None \<Rightarrow> [COLOR_RED, COLOR_GREEN, COLOR_BLUE, COLOR_GRAY]
                    | Some col \<Rightarrow> replicate 4 col)
      in render_bboxes_loop R self colors texts 0 bboxes3d h)"


section \<open>Descriptions of the drawn result\<close>

text \<open>
  The 2D box renderer as the specification words it, on the array itself: every box
  is outlined in its own colour, in order, and every label is rendered in white at the
  top-left corner \<open>(x, y)\<close> of its box.
\<close>

definition stroke_covers :: "raster \<Rightarrow> bbox2d \<Rightarrow> nat \<Rightarrow> nat \<Rightarrow> bool" where
  "stroke_covers R b r c \<longleftrightarrow> (int c, int r) \<in> set (polylines_px R [box_corners b] True 2)"

definition outline_boxes :: "raster \<Rightarrow> (bbox2d \<times> pixel) list \<Rightarrow> image \<Rightarrow> image" where
  "outline_boxes R bcs im =
     foldl (\<lambda>im' (b, col). paint (polylines_px R [box_corners b] True 2) col im') im bcs"

definition label_boxes :: "raster \<Rightarrow> (bbox2d \<times> string) list \<Rightarrow> image \<Rightarrow> image" where
  "label_boxes R bts im =
     foldl (\<lambda>im' ((x, y, w, h), t). render_text R t (py_int x, py_int y) 1 COLOR_WHITE 2 True im')
       im bts"

text \<open>The colour of the last box of the list whose stroke covers a position, if any.\<close>

fun top_color :: "raster \<Rightarrow> (bbox2d \<times> pixel) list \<Rightarrow> nat \<Rightarrow> nat \<Rightarrow> pixel option" where
  "top_color R [] r c = None"
| "top_color R ((b, col) # bcs) r c =
     (case top_color R bcs r c of
        Some k \<Rightarrow> Some k
      | None \<Rightarrow> if stroke_covers R b r c then Some col else None)"

text \<open>
  A coarse rasterizer for evaluating the model on small arrays: a stroke covers its
  vertices, a label covers its origin, resizing samples the nearest source pixel.
\<close>

definition vertex_raster :: raster where
  "vertex_raster =
     \<lparr>polylines_px = (\<lambda>pts closed th. concat pts),
      line_px = (\<lambda>p q th. [p, q]),
      circle_px = (\<lambda>ctr rad th. [ctr]),
      rectangle_px = (\<lambda>p q th. [p, q]),
      text_draw = (\<lambda>text org fs col th aa im r c.
                     if text \<noteq> [] \<and> (int c, int r) = org then col else img_at im r c),
      resample = (\<lambda>im hh ww r c. img_at im (r * img_h im div hh) (c * img_w im div ww))\<rparr>"

text \<open>
  The writes of an index assignment whose indices all lie inside the array, on the
  array itself.
\<close>

definition write_points :: "(point2i \<times> pixel) list \<Rightarrow> image \<Rightarrow> image" where
  "write_points ps im = foldl (\<lambda>im' ((u, v), col). set_px (nat v) (nat u) col im') im ps"

text \<open>
  The points that the image overlay keeps, in the words of the specification: the
  projection has non-negative pixel coordinates strictly inside the width and the
  height, and the camera-frame depth is positive.
\<close>

definition depth :: "point3 \<Rightarrow> rat" where
  "depth p = (case p of (x, y, z) \<Rightarrow> z)"

definition kept_on_image :: "nat \<Rightarrow> nat \<Rightarrow> camera \<Rightarrow> point3 \<Rightarrow> bool" where
  "kept_on_image H W cam X \<longleftrightarrow>
     0 \<le> fst (project cam (p_cw cam X)) \<and> fst (project cam (p_cw cam X)) < of_nat W \<and>
     0 \<le> snd (project cam (p_cw cam X)) \<and> snd (project cam (p_cw cam X)) < of_nat H \<and>
     0 < depth (p_cw cam X)"

text \<open>
  The points that the canvas keeps: the scaled and offset coordinates are
  non-negative and strictly inside the width and the height of the canvas.
\<close>

definition kept_on_canvas :: "nat \<Rightarrow> nat \<Rightarrow> BEVImage \<Rightarrow> nat \<Rightarrow> nat \<Rightarrow> point3 \<Rightarrow> bool" where
  "kept_on_canvas H W self xk yk p \<longleftrightarrow>
     0 \<le> fst (to_pixel self xk yk p) \<and> fst (to_pixel self xk yk p) < of_nat W \<and>
     0 \<le> snd (to_pixel self xk yk p) \<and> snd (to_pixel self xk yk p) < of_nat H"

text \<open>
  The overlay of the image renderer: on a black array of the shape of the image, the
  colour of every kept point at its truncated pixel position. The returned composite
  is the maximum per channel of the dilated overlay and the image.
\<close>

definition overlay :: "depth_colors \<Rightarrow> camera \<Rightarrow> rat \<Rightarrow> point3 list \<Rightarrow> image \<Rightarrow> image" where
  "overlay cmap cam percentile Xw im =
     write_points
       (map (\<lambda>X. (astype_int (project cam (p_cw cam X)),
                   cmap (map (\<lambda>X'. depth (p_cw cam X')) Xw) percentile (depth (p_cw cam X))))
          (filter (kept_on_image (img_h im) (img_w im) cam) Xw))
       (black (img_h im) (img_w im))"

definition composite :: "image \<Rightarrow> image \<Rightarrow> image" where
  "composite ov im =
     \<lparr>img_h = img_h im, img_w = img_w im,
      img_at = (\<lambda>r c. pmax (img_at (cv2_dilate5 ov) r c) (img_at im r c))\<rparr>"

text \<open>
  What the canvas writes for a point cloud: mid-gray at the truncated pixel position
  of every kept point.
\<close>

definition gray_points :: "BEVImage \<Rightarrow> nat \<Rightarrow> nat \<Rightarrow> point3 list \<Rightarrow> image \<Rightarrow> image" where
  "gray_points self xk yk pts im =
     write_points
       (map (\<lambda>p. (astype_int (to_pixel self xk yk p), (128, 128, 128)))
          (filter (kept_on_canvas (img_h im) (img_w im) self xk yk) pts))
       im"

text \<open>A camera at the origin of the world frame with unit focal length, and one colour for every depth.\<close>

definition unit_camera :: camera where
  "unit_camera = \<lparr>p_cw = (\<lambda>p. p), project = (\<lambda>p. case p of (x, y, z) \<Rightarrow> (x / z, y / z))\<rparr>"

definition one_color :: depth_colors where
  "one_color zs percentile z = COLOR_RED"

text \<open>A canvas of \<open>2 \<times> 2\<close> pixels over the first two axes, its buffer at address 0.\<close>

definition small_canvas :: BEVImage where
  "small_canvas =
     \<lparr>metric_width = 1, metric_height = 1, pixels_per_meter = 2, xaxis = 0, yaxis = 1,
      center_pixel = (1, 1), data = 0\<rparr>"

text \<open>
  A canvas of \<open>2 \<times> 2\<close> pixels that shows the last axis to the right and the first
  axis forward.
\<close>

definition side_canvas :: BEVImage where
  "side_canvas =
     \<lparr>metric_width = 1, metric_height = 1, pixels_per_meter = 2, xaxis = - 1, yaxis = 0,
      center_pixel = (1, 1), data = 0\<rparr>"

text \<open>
  The polar grid of the canvas: circles around the center pixel for the steps
  \<open>1, \<dots>, n - 1\<close>, with radius \<^verbatim>\<open>int(i * polar_step_size_meters * pixels_per_meter)\<close>.
\<close>

definition polar_grid :: "raster \<Rightarrow> point2i \<Rightarrow> rat \<Rightarrow> int \<Rightarrow> int \<Rightarrow> image \<Rightarrow> image" where
  "polar_grid R center ppm step n im =
     foldl (\<lambda>im' i. paint (circle_px R center (py_int (of_int i * of_int step * ppm)) 1)
                      (50, 50, 50) im')
       im [1..n - 1]"















text \<open>
  The mosaic as the specification words it. Every input is resized to the target size
  taken from the first image and the scale; a cell beyond the inputs is black; every
  tile is padded by \<open>pad\<close> black pixels on all four sides. The grid has
  \<open>grid_cols\<close> columns, the given width or the rounded-up square root of the number of
  images, and the rounded-up quotient of rows.
\<close>

definition resized :: "raster \<Rightarrow> image \<Rightarrow> nat \<Rightarrow> nat \<Rightarrow> image" where
  "resized R im hh ww = \<lparr>img_h = hh, img_w = ww, img_at = resample R im hh ww\<rparr>"

definition padded :: "nat \<Rightarrow> image \<Rightarrow> image" where
  "padded p im =
     \<lparr>img_h = img_h im + 2 * p, img_w = img_w im + 2 * p,
      img_at = (\<lambda>r c. if p \<le> r \<and> r < p + img_h im \<and> p \<le> c \<and> c < p + img_w im
                       then img_at im (r - p) (c - p) else (0, 0, 0))\<rparr>"

definition cell :: "raster \<Rightarrow> image list \<Rightarrow> nat \<Rightarrow> nat \<Rightarrow> nat \<Rightarrow> image" where
  "cell R items hh ww k = (if k < length items then resized R (items ! k) hh ww else black hh ww)"

definition grid_cols :: "int option \<Rightarrow> nat \<Rightarrow> int" where
  "grid_cols grid_width n =
     (case grid_width of None \<Rightarrow> int (ceil_sqrt n) | Some g \<Rightarrow> if g = 0 then int (ceil_sqrt n) else g)"

text \<open>Two arrays of two by two pixels with one marked pixel each.\<close>

definition dot_a :: image where
  "dot_a = set_px 0 0 COLOR_RED (black 2 2)"

definition dot_b :: image where
  "dot_b = set_px 1 1 COLOR_BLUE (black 2 2)"

text \<open>The shape of a returned array, or the error raised.\<close>

definition result_shape :: "error + image \<Rightarrow> error + nat \<times> nat" where
  "result_shape res = (case res of Inl e \<Rightarrow> Inl e | Inr im \<Rightarrow> Inr (img_h im, img_w im))"




section \<open>Properties of the store\<close>

lemma mutate_mutate: "mutate a g (mutate a f h) = mutate a (g \<circ> f) h"
  by (cases "a < length h") (simp_all add: mutate_def list_update_beyond)

lemma mutate_ident: "mutate a (\<lambda>im. im) h = h"
  by (simp add: mutate_def)

lemma length_mutate: "length (mutate a f h) = length h"
  by (simp add: mutate_def)

lemma nth_mutate: "a < length h \<Longrightarrow> mutate a f h ! b = (if b = a then f (h ! a) else h ! b)"
  by (simp add: mutate_def)

lemma nth_mutate_other: "b \<noteq> a \<Longrightarrow> mutate a f h ! b = h ! b"
  by (simp add: mutate_def)


section \<open>The 2D box renderer: the drawn array\<close>

lemma draw_boxes_gen:
  "n + length bs \<le> length cs \<Longrightarrow>
   foldl (\<lambda>h' (idx, box). cv2_polylines R img [box] True (cs ! idx) 2 h') h
       (enumerate n (map box_corners bs))
   = mutate img (outline_boxes R (zip bs (drop n cs))) h"
proof (induction bs arbitrary: n h)
  case Nil
  then show ?case by (simp add: outline_boxes_def mutate_def)
next
  case (Cons b bs)
  from Cons.prems have n: "n < length cs" and le: "Suc n + length bs \<le> length cs" by simp_all
  from n have d: "drop n cs = cs ! n # drop (Suc n) cs" by (simp add: Cons_nth_drop_Suc)
  show ?case
    using Cons.IH [OF le]
    by (simp add: d cv2_polylines_def mutate_mutate outline_boxes_def comp_def)
qed

lemma draw_boxes_outline:
  "length cs = length bs \<Longrightarrow>
   draw_boxes R img (map box_corners bs) cs h = mutate img (outline_boxes R (zip bs cs)) h"
  using draw_boxes_gen [of 0 bs cs R img h] by (simp add: draw_boxes_def)

lemma draw_texts_gen:
  "n + length bs \<le> length ts \<Longrightarrow>
   foldl (\<lambda>h' (idx, box). cv2_putText R img (ts ! idx) (box ! 0) 1 COLOR_WHITE 2 True h') h
       (enumerate n (map box_corners bs))
   = mutate img (label_boxes R (zip bs (drop n ts))) h"
proof (induction bs arbitrary: n h)
  case Nil
  then show ?case by (simp add: label_boxes_def mutate_def)
next
  case (Cons b bs)
  from Cons.prems have n: "n < length ts" and le: "Suc n + length bs \<le> length ts" by simp_all
  from n have d: "drop n ts = ts ! n # drop (Suc n) ts" by (simp add: Cons_nth_drop_Suc)
  obtain x y w h' where b: "b = (x, y, w, h')" by (cases b) auto
  show ?case
    using Cons.IH [OF le]
    by (simp add: d b cv2_putText_def mutate_mutate label_boxes_def comp_def)
qed

lemma draw_texts_label:
  "length ts = length bs \<Longrightarrow>
   draw_texts R img (map box_corners bs) ts h = mutate img (label_boxes R (zip bs ts)) h"
  using draw_texts_gen [of 0 bs ts R img h] by (simp add: draw_texts_def)

lemma outline_boxes_eq:
  "outline_boxes R bcs im =
     im\<lparr>img_at := (\<lambda>r c. if r < img_h im \<and> c < img_w im
                          then (case top_color R bcs r c of Some k \<Rightarrow> k | None \<Rightarrow> img_at im r c)
                          else img_at im r c)\<rparr>"
proof (induction bcs arbitrary: im)
  case Nil
  show ?case by (simp add: outline_boxes_def cong: if_cong)
next
  case (Cons bc bcs)
  obtain b col where bc: "bc = (b, col)" by (cases bc) auto
  have "outline_boxes R (bc # bcs) im
        = outline_boxes R bcs (paint (polylines_px R [box_corners b] True 2) col im)"
    by (simp add: outline_boxes_def bc)
  also have "\<dots> = im\<lparr>img_at := (\<lambda>r c. if r < img_h im \<and> c < img_w im
                          then (case top_color R (bc # bcs) r c of Some k \<Rightarrow> k | None \<Rightarrow> img_at im r c)
                          else img_at im r c)\<rparr>"
    unfolding Cons.IH
    by (auto simp: paint_def bc stroke_covers_def fun_eq_iff split: option.splits)
  finally show ?case .
qed

lemma top_color_None:
  "top_color R bcs r c = None \<longleftrightarrow> (\<forall>b \<in> set (map fst bcs). \<not> stroke_covers R b r c)"
  by (induction bcs) (auto split: option.splits)

lemma top_color_last:
  "length cs = length bs \<Longrightarrow> i < length bs \<Longrightarrow> stroke_covers R (bs ! i) r c \<Longrightarrow>
   (\<forall>j. i < j \<and> j < length bs \<longrightarrow> \<not> stroke_covers R (bs ! j) r c) \<Longrightarrow>
   top_color R (zip bs cs) r c = Some (cs ! i)"
proof (induction bs arbitrary: cs i)
  case Nil
  then show ?case by simp
next
  case (Cons b bs)
  then obtain k cs' where cs: "cs = k # cs'" and len: "length cs' = length bs"
    by (cases cs) auto
  show ?case
  proof (cases i)
    case 0
    have "\<forall>b' \<in> set bs. \<not> stroke_covers R b' r c"
    proof
      fix b' assume "b' \<in> set bs"
      then obtain j where j: "j < length bs" "bs ! j = b'" by (auto simp: in_set_conv_nth)
      with Cons.prems(4) 0 have "\<not> stroke_covers R ((b # bs) ! Suc j) r c" by auto
      with j show "\<not> stroke_covers R b' r c" by simp
    qed
    then have "top_color R (zip bs cs') r c = None"
      using len by (simp add: top_color_None)
    with Cons.prems(3) 0 show ?thesis by (simp add: cs)
  next
    case (Suc i')
    have later: "\<forall>j. i' < j \<and> j < length bs \<longrightarrow> \<not> stroke_covers R (bs ! j) r c"
    proof (intro allI impI)
      fix j assume "i' < j \<and> j < length bs"
      with Cons.prems(4) Suc have "\<not> stroke_covers R ((b # bs) ! Suc j) r c" by auto
      then show "\<not> stroke_covers R (bs ! j) r c" by simp
    qed
    from Cons.prems Suc have "i' < length bs" "stroke_covers R (bs ! i') r c" by simp_all
    from Cons.IH [OF len this later] show ?thesis by (simp add: cs Suc)
  qed
qed

lemma outline_boxes_idem:
  "outline_boxes R bcs (outline_boxes R bcs im) = outline_boxes R bcs im"
  by (simp add: outline_boxes_eq) (auto simp: fun_eq_iff split: option.splits)

lemma outline_boxes_last_wins:
  assumes "map fst bcs1 = map fst bcs2"
  shows "outline_boxes R bcs2 (outline_boxes R bcs1 im) = outline_boxes R bcs2 im"
proof -
  have "top_color R bcs1 r c = None" if "top_color R bcs2 r c = None" for r c
    using that assms by (simp add: top_color_None)
  then show ?thesis
    by (simp add: outline_boxes_eq) (auto simp: fun_eq_iff split: option.splits)
qed

lemma render_bbox2d_colors:
  "length cs = length bs \<Longrightarrow>
   render_bbox2d_on_image R img bs (Some cs) None h
     = (Inr img, mutate img (outline_boxes R (zip bs cs)) h)"
  by (simp add: render_bbox2d_on_image_def draw_boxes_outline)

lemma render_bbox2d_colors_texts:
  "length cs = length bs \<Longrightarrow> length ts = length bs \<Longrightarrow>
   render_bbox2d_on_image R img bs (Some cs) (Some ts) h
     = (Inr img, mutate img (label_boxes R (zip bs ts) \<circ> outline_boxes R (zip bs cs)) h)"
proof (cases "ts = []")
  case True
  assume "length cs = length bs" "length ts = length bs"
  with True have "bs = []" "cs = []" by simp_all
  with True show ?thesis
    by (simp add: render_bbox2d_on_image_def draw_boxes_def outline_boxes_def label_boxes_def
          mutate_def)
next
  case False
  assume "length cs = length bs" "length ts = length bs"
  with False show ?thesis
    by (simp add: render_bbox2d_on_image_def draw_boxes_outline draw_texts_label mutate_mutate)
qed


text \<open>
  Claim C10. For a non-empty list of boxes, \<open>texts = []\<close> does not fail and draws no
  labels: the length check on the texts is applied only to a non-empty list, so the
  empty list is treated as omitted texts.
\<close>

theorem render_bbox2d_empty_texts:
  assumes "bboxes2d \<noteq> []"
    and "colors = None \<or> (\<exists>cs. colors = Some cs \<and> length cs = length bboxes2d)"
  shows "render_bbox2d_on_image R img bboxes2d colors (Some []) h
           = render_bbox2d_on_image R img bboxes2d colors None h
         \<and> fst (render_bbox2d_on_image R img bboxes2d colors (Some []) h) = Inr img
         \<and> snd (render_bbox2d_on_image R img bboxes2d colors (Some []) h)
           = (case colors of
                None \<Rightarrow> cv2_polylines R img (map box_corners bboxes2d) True COLOR_RED 2 h
              | Some cs \<Rightarrow> draw_boxes R img (map box_corners bboxes2d) cs h)"
  using assms by (auto simp: render_bbox2d_on_image_def)

theorem render_bbox2d_empty_texts_witness:
  "[(0, 0, 1, 1) :: bbox2d] \<noteq> []
   \<and> fst (render_bbox2d_on_image vertex_raster 0 [(0, 0, 1, 1)] None (Some []) [black 2 2]) = Inr 0"
proof -
  have ne: "[(0, 0, 1, 1) :: bbox2d] \<noteq> []" by simp
  have ok: "(None :: pixel list option) = None
              \<or> (\<exists>cs. None = Some cs \<and> length cs = length [(0, 0, 1, 1) :: bbox2d])"
    by simp
  from render_bbox2d_empty_texts [OF ne ok, of vertex_raster 0 "[black 2 2]"]
  show ?thesis using ne by blast
qed

text \<open>
  Claim C7, as the code has it. A colours list of the wrong length fails the first
  assertion and leaves the array untouched; a non-empty texts list of the wrong
  length fails the second assertion. With matching lengths the call returns the same
  handle, the array holds the outlines drawn in order, each in its colour, with the
  labels rendered over them in white at the top-left corners; without labels a
  position covered by the stroke of box \<open>i\<close> and by no later stroke holds colour \<open>i\<close>.
\<close>

theorem render_bbox2d_length_checks:
  "(length cs_bad \<noteq> length bboxes2d \<longrightarrow>
      render_bbox2d_on_image R img bboxes2d (Some cs_bad) texts h
        = (Inl (AssertionError ''len(boxes) != len(colors)''), h))
   \<and> (ts_bad \<noteq> [] \<and> length ts_bad \<noteq> length bboxes2d \<and> length cs = length bboxes2d \<longrightarrow>
        fst (render_bbox2d_on_image R img bboxes2d None (Some ts_bad) h)
          = Inl (AssertionError ''len(boxes) != len(texts)'')
      \<and> fst (render_bbox2d_on_image R img bboxes2d (Some cs) (Some ts_bad) h)
          = Inl (AssertionError ''len(boxes) != len(texts)''))
   \<and> (length cs = length bboxes2d \<and> length ts = length bboxes2d \<longrightarrow>
        render_bbox2d_on_image R img bboxes2d (Some cs) (Some ts) h
          = (Inr img,
             mutate img (label_boxes R (zip bboxes2d ts) \<circ> outline_boxes R (zip bboxes2d cs)) h))
   \<and> (length cs = length bboxes2d \<and> img < length h \<and> i < length bboxes2d
        \<and> r < img_h (h ! img) \<and> c < img_w (h ! img)
        \<and> stroke_covers R (bboxes2d ! i) r c
        \<and> (\<forall>j. i < j \<and> j < length bboxes2d \<longrightarrow> \<not> stroke_covers R (bboxes2d ! j) r c) \<longrightarrow>
        img_at (snd (render_bbox2d_on_image R img bboxes2d (Some cs) None h) ! img) r c = cs ! i)"
proof (intro conjI impI)
  assume "length cs_bad \<noteq> length bboxes2d"
  then show "render_bbox2d_on_image R img bboxes2d (Some cs_bad) texts h
        = (Inl (AssertionError ''len(boxes) != len(colors)''), h)"
    by (simp add: render_bbox2d_on_image_def)
next
  assume "ts_bad \<noteq> [] \<and> length ts_bad \<noteq> length bboxes2d \<and> length cs = length bboxes2d"
  then show "fst (render_bbox2d_on_image R img bboxes2d None (Some ts_bad) h)
          = Inl (AssertionError ''len(boxes) != len(texts)'')"
    by (simp add: render_bbox2d_on_image_def)
next
  assume "ts_bad \<noteq> [] \<and> length ts_bad \<noteq> length bboxes2d \<and> length cs = length bboxes2d"
  then show "fst (render_bbox2d_on_image R img bboxes2d (Some cs) (Some ts_bad) h)
          = Inl (AssertionError ''len(boxes) != len(texts)'')"
    by (simp add: render_bbox2d_on_image_def)
next
  assume "length cs = length bboxes2d \<and> length ts = length bboxes2d"
  then show "render_bbox2d_on_image R img bboxes2d (Some cs) (Some ts) h
          = (Inr img,
             mutate img (label_boxes R (zip bboxes2d ts) \<circ> outline_boxes R (zip bboxes2d cs)) h)"
    by (simp add: render_bbox2d_colors_texts)
next
  assume a: "length cs = length bboxes2d \<and> img < length h \<and> i < length bboxes2d
        \<and> r < img_h (h ! img) \<and> c < img_w (h ! img)
        \<and> stroke_covers R (bboxes2d ! i) r c
        \<and> (\<forall>j. i < j \<and> j < length bboxes2d \<longrightarrow> \<not> stroke_covers R (bboxes2d ! j) r c)"
  then have "top_color R (zip bboxes2d cs) r c = Some (cs ! i)"
    by (intro top_color_last) auto
  with a show "img_at (snd (render_bbox2d_on_image R img bboxes2d (Some cs) None h) ! img) r c = cs ! i"
    by (simp add: render_bbox2d_colors nth_mutate outline_boxes_eq)
qed

lemma py_int_numeral [simp]: "py_int 0 = 0" "py_int 1 = 1" "py_int (numeral n) = numeral n"
  by (simp_all add: py_int_def)

theorem render_bbox2d_length_checks_witness:
  "render_bbox2d_on_image vertex_raster 0 [(0, 0, 1, 1)] (Some []) None [black 2 2]
     = (Inl (AssertionError ''len(boxes) != len(colors)''), [black 2 2])
   \<and> fst (render_bbox2d_on_image vertex_raster 0 [(0, 0, 1, 1)] (Some [COLOR_BLUE])
            (Some [''a'', ''b'']) [black 2 2])
     = Inl (AssertionError ''len(boxes) != len(texts)'')
   \<and> fst (render_bbox2d_on_image vertex_raster 0 [(0, 0, 1, 1)] (Some [COLOR_BLUE])
            (Some [''a'']) [black 2 2]) = Inr 0
   \<and> img_at (snd (render_bbox2d_on_image vertex_raster 0 [(0, 0, 1, 1)] (Some [COLOR_BLUE]) None
                   [black 2 2]) ! 0) 1 1 = COLOR_BLUE"
proof -
  note t = render_bbox2d_length_checks [of "[]" "[(0, 0, 1, 1)]" vertex_raster 0 None "[black 2 2]"
          "[''a'', ''b'']" "[COLOR_BLUE]" "[''a'']" 0 1 1]
  have h1: "length ([] :: pixel list) \<noteq> length [(0, 0, 1, 1) :: bbox2d]" by simp
  have h2: "[''a'', ''b''] \<noteq> [] \<and> length [''a'', ''b''] \<noteq> length [(0, 0, 1, 1) :: bbox2d]
            \<and> length [COLOR_BLUE] = length [(0, 0, 1, 1) :: bbox2d]" by simp
  have h3: "length [COLOR_BLUE] = length [(0, 0, 1, 1) :: bbox2d]
            \<and> length [''a''] = length [(0, 0, 1, 1) :: bbox2d]" by simp
  have h4: "length [COLOR_BLUE] = length [(0, 0, 1, 1) :: bbox2d] \<and> 0 < length [black 2 2]
        \<and> 0 < length [(0, 0, 1, 1) :: bbox2d]
        \<and> 1 < img_h ([black 2 2] ! 0) \<and> 1 < img_w ([black 2 2] ! 0)
        \<and> stroke_covers vertex_raster ([(0, 0, 1, 1)] ! 0) 1 1
        \<and> (\<forall>j. 0 < j \<and> j < length [(0, 0, 1, 1) :: bbox2d]
               \<longrightarrow> \<not> stroke_covers vertex_raster ([(0, 0, 1, 1)] ! j) 1 1)"
    by (auto simp: stroke_covers_def vertex_raster_def black_def)
  from t [THEN conjunct1, THEN mp, OF h1]
       t [THEN conjunct2, THEN conjunct1, THEN mp, OF h2, THEN conjunct2]
       t [THEN conjunct2, THEN conjunct2, THEN conjunct1, THEN mp, OF h3]
       t [THEN conjunct2, THEN conjunct2, THEN conjunct2, THEN mp, OF h4]
  show ?thesis by simp
qed

theorem render_bbox2d_texts_counterexample:
  "length ([] :: string list) \<noteq> length [(1, 1, 2, 2) :: bbox2d]
   \<and> fst (render_bbox2d_on_image vertex_raster 0 [(1, 1, 2, 2)] None (Some []) [black 4 4]) = Inr 0"
  by (simp add: render_bbox2d_on_image_def)


text \<open>
  Claim C8. Drawing the same boxes in the same colours a second time leaves the store
  as the first call left it, so the array is pixel-identical. Drawing them again in
  other colours gives the array that the second colours alone give (a position under
  the stroke of box \<open>i\<close> and under no later stroke shows the second colour \<open>i\<close>), and
  there are inputs where that redraw changes the array.
\<close>

theorem render_bbox2d_redraw:
  assumes "length cs = length bboxes2d" and "length cs' = length bboxes2d"
  shows "render_bbox2d_on_image R img bboxes2d (Some cs) None
           (snd (render_bbox2d_on_image R img bboxes2d (Some cs) None h))
         = render_bbox2d_on_image R img bboxes2d (Some cs) None h
       \<and> render_bbox2d_on_image R img bboxes2d (Some cs') None
           (snd (render_bbox2d_on_image R img bboxes2d (Some cs) None h))
         = render_bbox2d_on_image R img bboxes2d (Some cs') None h
       \<and> (img < length h \<and> i < length bboxes2d \<and> r < img_h (h ! img) \<and> c < img_w (h ! img)
            \<and> stroke_covers R (bboxes2d ! i) r c
            \<and> (\<forall>j. i < j \<and> j < length bboxes2d \<longrightarrow> \<not> stroke_covers R (bboxes2d ! j) r c) \<longrightarrow>
          img_at (snd (render_bbox2d_on_image R img bboxes2d (Some cs') None
                    (snd (render_bbox2d_on_image R img bboxes2d (Some cs) None h))) ! img) r c
            = cs' ! i)
       \<and> (\<exists>R0 a bs cs1 cs2 h0. length cs1 = length bs \<and> length cs2 = length bs
            \<and> snd (render_bbox2d_on_image R0 a bs (Some cs2) None
                     (snd (render_bbox2d_on_image R0 a bs (Some cs1) None h0)))
              \<noteq> snd (render_bbox2d_on_image R0 a bs (Some cs1) None h0))"
proof (intro conjI impI)
  show "render_bbox2d_on_image R img bboxes2d (Some cs) None
           (snd (render_bbox2d_on_image R img bboxes2d (Some cs) None h))
         = render_bbox2d_on_image R img bboxes2d (Some cs) None h"
    using assms(1)
    by (simp add: render_bbox2d_colors mutate_mutate comp_def outline_boxes_idem)
next
  have "map fst (zip bboxes2d cs) = map fst (zip bboxes2d cs')"
    using assms by simp
  then have lw: "outline_boxes R (zip bboxes2d cs') \<circ> outline_boxes R (zip bboxes2d cs)
              = outline_boxes R (zip bboxes2d cs')"
    by (simp add: fun_eq_iff outline_boxes_last_wins)
  show eq: "render_bbox2d_on_image R img bboxes2d (Some cs') None
           (snd (render_bbox2d_on_image R img bboxes2d (Some cs) None h))
         = render_bbox2d_on_image R img bboxes2d (Some cs') None h"
    using assms by (simp add: render_bbox2d_colors mutate_mutate lw)
  assume a: "img < length h \<and> i < length bboxes2d \<and> r < img_h (h ! img) \<and> c < img_w (h ! img)
            \<and> stroke_covers R (bboxes2d ! i) r c
            \<and> (\<forall>j. i < j \<and> j < length bboxes2d \<longrightarrow> \<not> stroke_covers R (bboxes2d ! j) r c)"
  then have "top_color R (zip bboxes2d cs') r c = Some (cs' ! i)"
    using assms(2) by (intro top_color_last) auto
  with a assms(2)
  show "img_at (snd (render_bbox2d_on_image R img bboxes2d (Some cs') None
                    (snd (render_bbox2d_on_image R img bboxes2d (Some cs) None h))) ! img) r c
            = cs' ! i"
    unfolding eq by (simp add: render_bbox2d_colors nth_mutate outline_boxes_eq)
next
  let ?bs = "[(0, 0, 1, 1)] :: bbox2d list"
  let ?h1 = "snd (render_bbox2d_on_image vertex_raster 0 ?bs (Some [COLOR_RED]) None [black 2 2])"
  let ?h2 = "snd (render_bbox2d_on_image vertex_raster 0 ?bs (Some [COLOR_BLUE]) None ?h1)"
  have cov: "stroke_covers vertex_raster (0, 0, 1, 1) (Suc 0) (Suc 0)"
    by (simp add: stroke_covers_def vertex_raster_def)
  have p1: "img_at (?h1 ! 0) 1 1 = COLOR_RED"
    by (simp add: render_bbox2d_colors nth_mutate outline_boxes_eq cov black_def)
  have p2: "img_at (?h2 ! 0) 1 1 = COLOR_BLUE"
    by (simp add: render_bbox2d_colors nth_mutate length_mutate outline_boxes_eq cov black_def)
  have "COLOR_BLUE \<noteq> COLOR_RED" by (simp add: COLOR_BLUE_def COLOR_RED_def)
  with p1 p2 have "?h2 \<noteq> ?h1" by metis
  then show "\<exists>R0 a bs cs1 cs2 h0. length cs1 = length bs \<and> length cs2 = length bs
            \<and> snd (render_bbox2d_on_image R0 a bs (Some cs2) None
                     (snd (render_bbox2d_on_image R0 a bs (Some cs1) None h0)))
              \<noteq> snd (render_bbox2d_on_image R0 a bs (Some cs1) None h0)"
    by (intro exI [of _ vertex_raster] exI [of _ 0] exI [of _ ?bs] exI [of _ "[COLOR_RED]"]
          exI [of _ "[COLOR_BLUE]"] exI [of _ "[black 2 2]"]) simp
qed

theorem render_bbox2d_redraw_witness:
  "render_bbox2d_on_image vertex_raster 0 [(0, 0, 1, 1)] (Some [COLOR_RED]) None
     (snd (render_bbox2d_on_image vertex_raster 0 [(0, 0, 1, 1)] (Some [COLOR_RED]) None [black 2 2]))
   = render_bbox2d_on_image vertex_raster 0 [(0, 0, 1, 1)] (Some [COLOR_RED]) None [black 2 2]
   \<and> img_at (snd (render_bbox2d_on_image vertex_raster 0 [(0, 0, 1, 1)] (Some [COLOR_BLUE]) None
       (snd (render_bbox2d_on_image vertex_raster 0 [(0, 0, 1, 1)] (Some [COLOR_RED]) None
          [black 2 2]))) ! 0) 1 1 = COLOR_BLUE"
proof -
  have l1: "length [COLOR_RED] = length [(0, 0, 1, 1) :: bbox2d]" by simp
  have l2: "length [COLOR_BLUE] = length [(0, 0, 1, 1) :: bbox2d]" by simp
  note t = render_bbox2d_redraw [OF l1 l2, of vertex_raster 0 "[black 2 2]" 0 1 1]
  have h: "0 < length [black 2 2] \<and> 0 < length [(0, 0, 1, 1) :: bbox2d]
        \<and> 1 < img_h ([black 2 2] ! 0) \<and> 1 < img_w ([black 2 2] ! 0)
        \<and> stroke_covers vertex_raster ([(0, 0, 1, 1)] ! 0) 1 1
        \<and> (\<forall>j. 0 < j \<and> j < length [(0, 0, 1, 1) :: bbox2d]
               \<longrightarrow> \<not> stroke_covers vertex_raster ([(0, 0, 1, 1)] ! j) 1 1)"
    by (auto simp: stroke_covers_def vertex_raster_def black_def)
  from t [THEN conjunct1]
       t [THEN conjunct2, THEN conjunct2, THEN conjunct1, THEN mp, OF h]
  show ?thesis by simp
qed


section \<open>Index assignment and masks\<close>

lemma mask_select_map: "mask_select (map P xs) (map f xs) = map f (filter P xs)"
  by (induction xs) (simp_all add: mask_select_def)

lemma map2_same: "map2 g (map f xs) (map k xs) = map (\<lambda>x. g (f x) (k x)) xs"
  by (induction xs) simp_all

lemma zip_map_same: "zip (map f xs) (map g xs) = map (\<lambda>x. (f x, g x)) xs"
  by (induction xs) simp_all

lemma set_px_shape: "img_h (set_px r c v im) = img_h im" "img_w (set_px r c v im) = img_w im"
  by (simp_all add: set_px_def)

lemma write_points_shape:
  "img_h (write_points ps im) = img_h im \<and> img_w (write_points ps im) = img_w im"
  by (induction ps arbitrary: im) (auto simp: write_points_def set_px_shape)

lemma write_points_Cons:
  "write_points (((u, v), col) # ps) im = write_points ps (set_px (nat v) (nat u) col im)"
  by (simp add: write_points_def)

lemma np_index_inside: "0 \<le> i \<Longrightarrow> i < int n \<Longrightarrow> np_index n i = Inr (nat i)"
  by (simp add: np_index_def)

lemma setitem_points_inside:
  "a < length h \<Longrightarrow>
   (\<forall>((u, v), col) \<in> set ps. 0 \<le> u \<and> u < int (img_w (h ! a)) \<and> 0 \<le> v \<and> v < int (img_h (h ! a))) \<Longrightarrow>
   setitem_points a ps h = (Inr (), mutate a (write_points ps) h)"
proof (induction ps arbitrary: h)
  case Nil
  then show ?case by (simp add: write_points_def mutate_def)
next
  case (Cons p ps)
  obtain u v col where p: "p = ((u, v), col)" by (cases p) auto
  let ?h = "mutate a (set_px (nat v) (nat u) col) h"
  from Cons.prems p have inb: "0 \<le> u" "u < int (img_w (h ! a))" "0 \<le> v" "v < int (img_h (h ! a))"
    by auto
  have a': "a < length ?h" using Cons.prems(1) by (simp add: length_mutate)
  have shape: "img_w (?h ! a) = img_w (h ! a)" "img_h (?h ! a) = img_h (h ! a)"
    using Cons.prems(1) by (simp_all add: nth_mutate set_px_shape)
  have rest: "\<forall>((u, v), col) \<in> set ps.
      0 \<le> u \<and> u < int (img_w (?h ! a)) \<and> 0 \<le> v \<and> v < int (img_h (?h ! a))"
    using Cons.prems(2) unfolding shape by auto
  from Cons.IH [OF a' rest] inb show ?case
    by (simp add: p np_index_inside mutate_mutate comp_def write_points_Cons)
qed

lemma write_points_const:
  "(\<forall>(u, v) \<in> set qs. 0 \<le> u \<and> 0 \<le> v) \<Longrightarrow>
   img_at (write_points (map (\<lambda>q. (q, k)) qs) im) r c
     = (if (int c, int r) \<in> set qs then k else img_at im r c)"
proof (induction qs arbitrary: im)
  case Nil
  then show ?case by (simp add: write_points_def)
next
  case (Cons q qs)
  obtain u v where q: "q = (u, v)" by (cases q) auto
  from Cons.prems q have nn: "0 \<le> u" "0 \<le> v" by auto
  from Cons.prems have rest: "\<forall>(u, v) \<in> set qs. 0 \<le> u \<and> 0 \<le> v" by auto
  have eq: "(nat v = r \<and> nat u = c) \<longleftrightarrow> (int c, int r) = (u, v)" using nn by auto
  show ?case
    using Cons.IH [OF rest, of "set_px (nat v) (nat u) k im"] eq
    by (auto simp: q write_points_Cons set_px_def)
qed

lemma py_int_inside:
  "0 \<le> q \<Longrightarrow> q < of_nat n \<Longrightarrow> 0 \<le> py_int q \<and> py_int q < int n"
  by (simp add: py_int_def floor_less_iff)


section \<open>The point cloud renderers: the written arrays\<close>

lemma mutate_last: "mutate (length h) f (h @ [x]) = h @ [f x]"
  by (simp add: mutate_def)

lemma kept_on_image_in_view:
  "in_view_image H W (project cam (p_cw cam X)) (depth (p_cw cam X)) = kept_on_image H W cam X"
  by (cases "project cam (p_cw cam X)") (auto simp: in_view_image_def kept_on_image_def)

lemma kept_on_canvas_in_view:
  "in_view_bev H W (to_pixel self xk yk p) = kept_on_canvas H W self xk yk p"
  by (cases "to_pixel self xk yk p") (auto simp: in_view_bev_def kept_on_canvas_def)

lemma kept_on_image_inside:
  assumes "kept_on_image H W cam X"
  shows "0 \<le> fst (astype_int (project cam (p_cw cam X)))
       \<and> fst (astype_int (project cam (p_cw cam X))) < int W
       \<and> 0 \<le> snd (astype_int (project cam (p_cw cam X)))
       \<and> snd (astype_int (project cam (p_cw cam X))) < int H"
  using assms py_int_inside [of "fst (project cam (p_cw cam X))" W]
    py_int_inside [of "snd (project cam (p_cw cam X))" H]
  by (cases "project cam (p_cw cam X)") (simp add: kept_on_image_def astype_int_def)

lemma kept_on_canvas_inside:
  assumes "kept_on_canvas H W self xk yk p"
  shows "0 \<le> fst (astype_int (to_pixel self xk yk p))
       \<and> fst (astype_int (to_pixel self xk yk p)) < int W
       \<and> 0 \<le> snd (astype_int (to_pixel self xk yk p))
       \<and> snd (astype_int (to_pixel self xk yk p)) < int H"
  using assms py_int_inside [of "fst (to_pixel self xk yk p)" W]
    py_int_inside [of "snd (to_pixel self xk yk p)" H]
  by (cases "to_pixel self xk yk p") (simp add: kept_on_canvas_def astype_int_def)

lemma cv2_dilate5_shape:
  "img_h (cv2_dilate5 im) = img_h im" "img_w (cv2_dilate5 im) = img_w im"
  by (simp_all add: cv2_dilate5_def)

lemma overlay_shape:
  "img_h (overlay cmap cam pct Xw im) = img_h im" "img_w (overlay cmap cam pct Xw im) = img_w im"
  by (simp_all add: overlay_def write_points_shape black_def)

lemma render_pointcloud_eq:
  assumes "img < length h"
  shows "render_pointcloud_on_image cmap img cam Xw pct h
       = (Inr (length h + 2),
          h @ [overlay cmap cam pct Xw (h ! img),
               cv2_dilate5 (overlay cmap cam pct Xw (h ! img)),
               composite (overlay cmap cam pct Xw (h ! img)) (h ! img)])"
proof -
  let ?H = "img_h (h ! img)" and ?W = "img_w (h ! img)"
  let ?zs = "map (\<lambda>X'. depth (p_cw cam X')) Xw"
  let ?ps = "map (\<lambda>X. (astype_int (project cam (p_cw cam X)), cmap ?zs pct (depth (p_cw cam X))))
               (filter (kept_on_image ?H ?W cam) Xw)"
  let ?h1 = "h @ [black ?H ?W]"
  let ?ov = "overlay cmap cam pct Xw (h ! img)"
  have zc: "map (\<lambda>(x, y, z). z) (map (p_cw cam) Xw) = ?zs"
    by (simp add: depth_def)
  have mask: "map2 (in_view_image ?H ?W) (map (project cam) (map (p_cw cam) Xw)) ?zs
            = map (kept_on_image ?H ?W cam) Xw"
    using map2_same [of "in_view_image ?H ?W" "\<lambda>X. project cam (p_cw cam X)" Xw
            "\<lambda>X. depth (p_cw cam X)"]
    by (simp add: comp_def kept_on_image_in_view)
  have uv: "map astype_int (mask_select (map (kept_on_image ?H ?W cam) Xw)
                               (map (project cam) (map (p_cw cam) Xw)))
          = map (\<lambda>X. astype_int (project cam (p_cw cam X))) (filter (kept_on_image ?H ?W cam) Xw)"
    using mask_select_map [of "kept_on_image ?H ?W cam" Xw "\<lambda>X. project cam (p_cw cam X)"]
    by (simp add: comp_def)
  have cols: "mask_select (map (kept_on_image ?H ?W cam) Xw) (map (cmap ?zs pct) ?zs)
          = map (\<lambda>X. cmap ?zs pct (depth (p_cw cam X))) (filter (kept_on_image ?H ?W cam) Xw)"
    using mask_select_map [of "kept_on_image ?H ?W cam" Xw "\<lambda>X. cmap ?zs pct (depth (p_cw cam X))"]
    by (simp add: comp_def)
  have zipped: "zip (map astype_int (mask_select (map (kept_on_image ?H ?W cam) Xw)
                               (map (project cam) (map (p_cw cam) Xw))))
                    (mask_select (map (kept_on_image ?H ?W cam) Xw) (map (cmap ?zs pct) ?zs))
              = ?ps"
    unfolding uv cols by (rule zip_map_same)
  have inside: "\<forall>((u, v), col) \<in> set ?ps.
      0 \<le> u \<and> u < int (img_w (?h1 ! length h)) \<and> 0 \<le> v \<and> v < int (img_h (?h1 ! length h))"
    using kept_on_image_inside [of ?H ?W cam] by (simp add: case_prod_beta black_def)
  have "setitem_points (length h) ?ps ?h1 = (Inr (), mutate (length h) (write_points ?ps) ?h1)"
    by (rule setitem_points_inside [OF _ inside]) simp
  then have set: "setitem_points (length h) ?ps ?h1 = (Inr (), h @ [?ov])"
    by (simp add: mutate_last overlay_def)
  have img': "(h @ [?ov, cv2_dilate5 ?ov]) ! img = h ! img"
    using assms by (simp add: nth_append)
  have dil: "(h @ [?ov, cv2_dilate5 ?ov]) ! Suc (length h) = cv2_dilate5 ?ov"
    by (simp add: nth_append)
  have mx: "np_maximum (cv2_dilate5 ?ov) (h ! img) = Inr (composite ?ov (h ! img))"
    by (simp add: np_maximum_def composite_def cv2_dilate5_shape overlay_shape)
  show ?thesis
    unfolding render_pointcloud_on_image_def Let_def zc mask zipped alloc_def np_zeros_like_def
      prod.case set
    using img' dil mx by (simp add: nth_append)
qed

lemma render_point_cloud_eq:
  assumes "data self < length h"
    and "np_index 3 (xaxis self) = Inr xk" and "np_index 3 (yaxis self) = Inr yk"
  shows "render_point_cloud self pts h
       = (Inr (), mutate (data self) (gray_points self xk yk pts) h)"
proof -
  let ?H = "img_h (h ! data self)" and ?W = "img_w (h ! data self)"
  let ?qs = "map (\<lambda>p. astype_int (to_pixel self xk yk p))
               (filter (kept_on_canvas ?H ?W self xk yk) pts)"
  have sel: "mask_select (map (in_view_bev ?H ?W) (map (to_pixel self xk yk) pts))
               (map astype_int (map (to_pixel self xk yk) pts)) = ?qs"
    using mask_select_map [of "kept_on_canvas ?H ?W self xk yk" pts
            "\<lambda>p. astype_int (to_pixel self xk yk p)"]
    by (simp add: comp_def kept_on_canvas_in_view)
  have inside: "\<forall>((u, v), col) \<in> set (map (\<lambda>q. (q, (128, 128, 128) :: pixel)) ?qs).
      0 \<le> u \<and> u < int ?W \<and> 0 \<le> v \<and> v < int ?H"
    using kept_on_canvas_inside [of ?H ?W self xk yk] by (simp add: case_prod_beta)
  have "setitem_points (data self) (map (\<lambda>q. (q, (128, 128, 128))) ?qs) h
        = (Inr (), mutate (data self) (write_points (map (\<lambda>q. (q, (128, 128, 128))) ?qs)) h)"
    by (rule setitem_points_inside [OF assms(1) inside])
  also have "mutate (data self) (write_points (map (\<lambda>q. (q, (128, 128, 128))) ?qs)) h
               = mutate (data self) (gray_points self xk yk pts) h"
    by (simp add: mutate_def gray_points_def comp_def)
  finally have "setitem_points (data self) (map (\<lambda>q. (q, (128, 128, 128))) ?qs) h
        = (Inr (), mutate (data self) (gray_points self xk yk pts) h)" .
  then show ?thesis
    unfolding render_point_cloud_def Let_def assms(2,3) sum.case sel .
qed


lemma py_int_of_int: "py_int (of_int n) = n"
  by (simp add: py_int_def)

lemma gray_points_at:
  "img_at (gray_points self xk yk pts im) r c
     = (if \<exists>p \<in> set pts. kept_on_canvas (img_h im) (img_w im) self xk yk p
                          \<and> astype_int (to_pixel self xk yk p) = (int c, int r)
        then (128, 128, 128) else img_at im r c)"
proof -
  let ?qs = "map (\<lambda>p. astype_int (to_pixel self xk yk p))
               (filter (kept_on_canvas (img_h im) (img_w im) self xk yk) pts)"
  have nn: "\<forall>(u, v) \<in> set ?qs. 0 \<le> u \<and> 0 \<le> v"
    using kept_on_canvas_inside [of "img_h im" "img_w im" self xk yk]
    by (simp add: case_prod_beta)
  have mem: "(int c, int r) \<in> set ?qs \<longleftrightarrow>
             (\<exists>p \<in> set pts. kept_on_canvas (img_h im) (img_w im) self xk yk p
                          \<and> astype_int (to_pixel self xk yk p) = (int c, int r))"
    (is "?L \<longleftrightarrow> ?R")
  proof
    assume ?L
    then obtain p where "p \<in> set (filter (kept_on_canvas (img_h im) (img_w im) self xk yk) pts)"
      and "(int c, int r) = astype_int (to_pixel self xk yk p)"
      by (auto simp: image_iff)
    then show ?R by (intro bexI [of _ p]) simp_all
  next
    assume ?R
    then obtain p where p: "p \<in> set pts" "kept_on_canvas (img_h im) (img_w im) self xk yk p"
      "astype_int (to_pixel self xk yk p) = (int c, int r)" by blast
    then have "p \<in> set (filter (kept_on_canvas (img_h im) (img_w im) self xk yk) pts)" by simp
    with p(3) show ?L by (metis image_eqI set_map)
  qed
  have "gray_points self xk yk pts im = write_points (map (\<lambda>q. (q, (128, 128, 128))) ?qs) im"
    by (simp add: gray_points_def comp_def)
  then have "img_at (gray_points self xk yk pts im) r c
               = (if (int c, int r) \<in> set ?qs then (128, 128, 128) else img_at im r c)"
    using write_points_const [OF nn, of "(128, 128, 128)" im r c] by simp
  then show ?thesis
    unfolding mem .
qed

lemma gray_points_shape:
  "img_h (gray_points self xk yk pts im) = img_h im"
  "img_w (gray_points self xk yk pts im) = img_w im"
  by (simp_all add: gray_points_def write_points_shape)

text \<open>
  Claim C3. A point that projects outside the raster is dropped and never makes the
  call fail or write outside the array. The image renderer returns normally; its
  overlay holds exactly the points with non-negative pixel coordinates strictly inside
  the width and the height and with positive depth, every such point is written at an
  index inside the array, and a point with \<open>z \<le> 0\<close> is never kept. The canvas returns
  normally and writes exactly the points whose scaled and offset coordinates are
  non-negative and strictly inside the canvas, each at an index inside the array.
\<close>

theorem out_of_raster_points_dropped:
  assumes "img < length h"
    and "data self < length h'"
    and "np_index 3 (xaxis self) = Inr xk" and "np_index 3 (yaxis self) = Inr yk"
  shows "render_pointcloud_on_image cmap img cam Xw pct h
           = (Inr (length h + 2),
              h @ [overlay cmap cam pct Xw (h ! img),
                   cv2_dilate5 (overlay cmap cam pct Xw (h ! img)),
                   composite (overlay cmap cam pct Xw (h ! img)) (h ! img)])
       \<and> (\<forall>X \<in> set Xw. kept_on_image (img_h (h ! img)) (img_w (h ! img)) cam X \<longrightarrow>
             0 \<le> fst (astype_int (project cam (p_cw cam X)))
           \<and> fst (astype_int (project cam (p_cw cam X))) < int (img_w (h ! img))
           \<and> 0 \<le> snd (astype_int (project cam (p_cw cam X)))
           \<and> snd (astype_int (project cam (p_cw cam X))) < int (img_h (h ! img)))
       \<and> (\<forall>X. depth (p_cw cam X) \<le> 0 \<longrightarrow> \<not> kept_on_image (img_h (h ! img)) (img_w (h ! img)) cam X)
       \<and> render_point_cloud self pts h'
           = (Inr (), mutate (data self) (gray_points self xk yk pts) h')
       \<and> (\<forall>p \<in> set pts.
             kept_on_canvas (img_h (h' ! data self)) (img_w (h' ! data self)) self xk yk p \<longrightarrow>
             0 \<le> fst (astype_int (to_pixel self xk yk p))
           \<and> fst (astype_int (to_pixel self xk yk p)) < int (img_w (h' ! data self))
           \<and> 0 \<le> snd (astype_int (to_pixel self xk yk p))
           \<and> snd (astype_int (to_pixel self xk yk p)) < int (img_h (h' ! data self)))"
  using render_pointcloud_eq [OF assms(1)] render_point_cloud_eq [OF assms(2,3,4)]
    kept_on_image_inside kept_on_canvas_inside
  by (auto simp: kept_on_image_def)

theorem out_of_raster_points_dropped_witness:
  "fst (render_pointcloud_on_image one_color 0 unit_camera [(1, 1, 1), (5, 5, 1), (1, 1, - 1)] 80
          [black 2 2]) = Inr 3
   \<and> fst (render_point_cloud small_canvas [(0, 0, 0), (9, 9, 9)] [black 2 2]) = Inr ()"
proof -
  have a: "0 < length [black 2 2]" by simp
  have b: "data small_canvas < length [black 2 2]" by (simp add: small_canvas_def)
  have c: "np_index 3 (xaxis small_canvas) = Inr 0"
    by (simp add: np_index_def small_canvas_def)
  have d: "np_index 3 (yaxis small_canvas) = Inr 1"
    by (simp add: np_index_def small_canvas_def)
  note t = out_of_raster_points_dropped [OF a b c d, of one_color unit_camera
             "[(1, 1, 1), (5, 5, 1), (1, 1, - 1)]" 80 "[(0, 0, 0), (9, 9, 9)]"]
  from t [THEN conjunct1]
       t [THEN conjunct2, THEN conjunct2, THEN conjunct2, THEN conjunct1]
  show ?thesis by simp
qed

text \<open>
  Claim C4. The configured axes select the columns \<open>xk\<close> and \<open>yk\<close> of the points: an
  axis from 0 to 2 selects that column and a negative axis counts from the last
  column. A point \<open>(x0, x1, x2)\<close> maps to \<open>u = center_x + x * pixels_per_meter\<close> and
  \<open>v = center_y - y * pixels_per_meter\<close>, where \<open>x\<close> is its coordinate in column
  \<open>xk\<close> and \<open>y\<close> its coordinate in column \<open>yk\<close>; with the default axes 0 and 1
  these are \<open>x0\<close> and \<open>x1\<close>. The call returns normally and keeps the shape;
  afterwards a pixel of the canvas is \<open>(128, 128, 128)\<close> if a kept point truncates to
  it and is unchanged otherwise. A point whose pixel coordinates are the center pixel,
  the center lying on the canvas, leaves the center pixel at \<open>(128, 128, 128)\<close>.
\<close>

theorem render_point_cloud_gray:
  assumes "data self < length h"
    and "np_index 3 (xaxis self) = Inr xk" and "np_index 3 (yaxis self) = Inr yk"
  shows "to_pixel self xk yk p
           = (of_int (fst (center_pixel self)) + coord xk p * pixels_per_meter self,
              of_int (snd (center_pixel self)) - coord yk p * pixels_per_meter self)
       \<and> fst (render_point_cloud self pts h) = Inr ()
       \<and> img_h (snd (render_point_cloud self pts h) ! data self) = img_h (h ! data self)
       \<and> img_w (snd (render_point_cloud self pts h) ! data self) = img_w (h ! data self)
       \<and> (\<forall>r < img_h (h ! data self). \<forall>c < img_w (h ! data self).
            img_at (snd (render_point_cloud self pts h) ! data self) r c
              = (if \<exists>q \<in> set pts.
                      kept_on_canvas (img_h (h ! data self)) (img_w (h ! data self)) self xk yk q
                      \<and> astype_int (to_pixel self xk yk q) = (int c, int r)
                 then (128, 128, 128) else img_at (h ! data self) r c))
       \<and> (p \<in> set pts \<and> to_pixel self xk yk p
              = (of_int (fst (center_pixel self)), of_int (snd (center_pixel self)))
            \<and> 0 \<le> fst (center_pixel self) \<and> fst (center_pixel self) < int (img_w (h ! data self))
            \<and> 0 \<le> snd (center_pixel self) \<and> snd (center_pixel self) < int (img_h (h ! data self))
          \<longrightarrow> img_at (snd (render_point_cloud self pts h) ! data self)
                (nat (snd (center_pixel self))) (nat (fst (center_pixel self)))
              = (128, 128, 128))
       \<and> xk < 3 \<and> yk < 3
       \<and> int xk = (if 0 \<le> xaxis self then xaxis self else xaxis self + 3)
       \<and> int yk = (if 0 \<le> yaxis self then yaxis self else yaxis self + 3)
       \<and> to_pixel self xk yk (x0, x1, x2)
           = (of_int (fst (center_pixel self)) + [x0, x1, x2] ! xk * pixels_per_meter self,
              of_int (snd (center_pixel self)) - [x0, x1, x2] ! yk * pixels_per_meter self)
       \<and> (xaxis self = 0 \<and> yaxis self = 1 \<longrightarrow>
            to_pixel self xk yk (x0, x1, x2)
              = (of_int (fst (center_pixel self)) + x0 * pixels_per_meter self,
                 of_int (snd (center_pixel self)) - x1 * pixels_per_meter self))"
proof -
  from assms(2) have xk: "xk < 3" and xa: "int xk = (if 0 \<le> xaxis self then xaxis self else xaxis self + 3)"
    by (auto simp: np_index_def split: if_splits)
  from assms(3) have yk: "yk < 3" and ya: "int yk = (if 0 \<le> yaxis self then yaxis self else yaxis self + 3)"
    by (auto simp: np_index_def split: if_splits)
  have col: "coord k (x0, x1, x2) = [x0, x1, x2] ! k" if "k < 3" for k
  proof -
    from that have "k = 0 \<or> k = 1 \<or> k = 2" by arith
    then show ?thesis by (auto simp: coord_def)
  qed
  show ?thesis
  proof (intro conjI impI allI)
    show "to_pixel self xk yk p
           = (of_int (fst (center_pixel self)) + coord xk p * pixels_per_meter self,
              of_int (snd (center_pixel self)) - coord yk p * pixels_per_meter self)"
      by (simp add: to_pixel_def)
  next
    show "fst (render_point_cloud self pts h) = Inr ()"
      by (simp add: render_point_cloud_eq [OF assms])
  next
    show "img_h (snd (render_point_cloud self pts h) ! data self) = img_h (h ! data self)"
      using assms(1) by (simp add: render_point_cloud_eq [OF assms] nth_mutate gray_points_shape)
  next
    show "img_w (snd (render_point_cloud self pts h) ! data self) = img_w (h ! data self)"
      using assms(1) by (simp add: render_point_cloud_eq [OF assms] nth_mutate gray_points_shape)
  next
    fix r c
    show "img_at (snd (render_point_cloud self pts h) ! data self) r c
              = (if \<exists>q \<in> set pts.
                      kept_on_canvas (img_h (h ! data self)) (img_w (h ! data self)) self xk yk q
                      \<and> astype_int (to_pixel self xk yk q) = (int c, int r)
                 then (128, 128, 128) else img_at (h ! data self) r c)"
      using assms(1) by (simp add: render_point_cloud_eq [OF assms] nth_mutate gray_points_at)
  next
    let ?cx = "fst (center_pixel self)" and ?cy = "snd (center_pixel self)"
    assume a: "p \<in> set pts \<and> to_pixel self xk yk p = (of_int ?cx, of_int ?cy)
            \<and> 0 \<le> ?cx \<and> ?cx < int (img_w (h ! data self))
            \<and> 0 \<le> ?cy \<and> ?cy < int (img_h (h ! data self))"
    then have kept: "kept_on_canvas (img_h (h ! data self)) (img_w (h ! data self)) self xk yk p"
      by (simp add: kept_on_canvas_def)
    from a have at: "astype_int (to_pixel self xk yk p) = (int (nat ?cx), int (nat ?cy))"
      by (simp add: astype_int_def py_int_of_int)
    from a kept at assms(1)
    show "img_at (snd (render_point_cloud self pts h) ! data self) (nat ?cy) (nat ?cx)
          = (128, 128, 128)"
      by (auto simp: render_point_cloud_eq [OF assms] nth_mutate gray_points_at)
  next
    show "xk < 3" by (rule xk)
    show "yk < 3" by (rule yk)
    show "int xk = (if 0 \<le> xaxis self then xaxis self else xaxis self + 3)" by (rule xa)
    show "int yk = (if 0 \<le> yaxis self then yaxis self else yaxis self + 3)" by (rule ya)
    show "to_pixel self xk yk (x0, x1, x2)
           = (of_int (fst (center_pixel self)) + [x0, x1, x2] ! xk * pixels_per_meter self,
              of_int (snd (center_pixel self)) - [x0, x1, x2] ! yk * pixels_per_meter self)"
      unfolding to_pixel_def col [OF xk] col [OF yk] by (rule refl)
  next
    assume "xaxis self = 0 \<and> yaxis self = 1"
    with xa ya have "xk = 0" "yk = 1" by simp_all
    then show "to_pixel self xk yk (x0, x1, x2)
              = (of_int (fst (center_pixel self)) + x0 * pixels_per_meter self,
                 of_int (snd (center_pixel self)) - x1 * pixels_per_meter self)"
      by (simp add: to_pixel_def coord_def)
  qed
qed

theorem render_point_cloud_gray_witness:
  "img_at (snd (render_point_cloud small_canvas [(0, 0, 0), (9, 9, 9), (- 1 / 2, 1 / 2, 9)]
                  [black 2 2]) ! 0) 1 1
     = (128, 128, 128)
   \<and> fst (render_point_cloud small_canvas [(0, 0, 0), (9, 9, 9), (- 1 / 2, 1 / 2, 9)]
            [black 2 2]) = Inr ()
   \<and> img_at (snd (render_point_cloud small_canvas [(0, 0, 0), (9, 9, 9), (- 1 / 2, 1 / 2, 9)]
                    [black 2 2]) ! 0) 0 0
       = (128, 128, 128)
   \<and> img_at (snd (render_point_cloud small_canvas [(0, 0, 0), (9, 9, 9), (- 1 / 2, 1 / 2, 9)]
                    [black 2 2]) ! 0) 0 1
       = (0, 0, 0)
   \<and> to_pixel small_canvas 0 1 (- 1 / 2, 1 / 2, 9) = (0, 0)
   \<and> to_pixel side_canvas 2 0 (1 / 2, 9, - 1 / 2) = (0, 0)
   \<and> img_at (snd (render_point_cloud side_canvas [(1 / 2, 9, - 1 / 2)] [black 2 2]) ! 0) 0 0
       = (128, 128, 128)
   \<and> img_at (snd (render_point_cloud side_canvas [(1 / 2, 9, - 1 / 2)] [black 2 2]) ! 0) 1 1
       = (0, 0, 0)"
proof -
  let ?pts = "[(0, 0, 0), (9, 9, 9), (- 1 / 2, 1 / 2, 9)] :: point3 list"
  have b: "data small_canvas < length [black 2 2]" by (simp add: small_canvas_def)
  have c: "np_index 3 (xaxis small_canvas) = Inr 0"
    by (simp add: np_index_def small_canvas_def)
  have d: "np_index 3 (yaxis small_canvas) = Inr 1"
    by (simp add: np_index_def small_canvas_def)
  note t = render_point_cloud_gray [OF b c d, of "(0, 0, 0)" ?pts "- 1 / 2" "1 / 2" 9]
  have hyp: "(0, 0, 0) \<in> set ?pts
      \<and> to_pixel small_canvas 0 1 (0, 0, 0)
          = (of_int (fst (center_pixel small_canvas)), of_int (snd (center_pixel small_canvas)))
      \<and> 0 \<le> fst (center_pixel small_canvas)
      \<and> fst (center_pixel small_canvas) < int (img_w ([black 2 2] ! data small_canvas))
      \<and> 0 \<le> snd (center_pixel small_canvas)
      \<and> snd (center_pixel small_canvas) < int (img_h ([black 2 2] ! data small_canvas))"
    by (simp add: small_canvas_def to_pixel_def coord_def black_def)
  note px = t [THEN conjunct2, THEN conjunct2, THEN conjunct2, THEN conjunct2, THEN conjunct1,
               rule_format]
  have r0: "0 < img_h ([black 2 2] ! data small_canvas)" by (simp add: small_canvas_def black_def)
  have c0: "0 < img_w ([black 2 2] ! data small_canvas)" by (simp add: small_canvas_def black_def)
  have c1: "1 < img_w ([black 2 2] ! data small_canvas)" by (simp add: small_canvas_def black_def)
  have e: "data side_canvas < length [black 2 2]" by (simp add: side_canvas_def)
  have f: "np_index 3 (xaxis side_canvas) = Inr 2"
    by (simp add: np_index_def side_canvas_def)
  have g: "np_index 3 (yaxis side_canvas) = Inr 0"
    by (simp add: np_index_def side_canvas_def)
  note s = render_point_cloud_gray [OF e f g, of "(0, 0, 0)" "[(1 / 2, 9, - 1 / 2)]" "1 / 2" 9 "- 1 / 2"]
  note sx = s [THEN conjunct2, THEN conjunct2, THEN conjunct2, THEN conjunct2, THEN conjunct1,
               rule_format]
  have r0': "0 < img_h ([black 2 2] ! data side_canvas)" by (simp add: side_canvas_def black_def)
  have c0': "0 < img_w ([black 2 2] ! data side_canvas)" by (simp add: side_canvas_def black_def)
  have r1': "1 < img_h ([black 2 2] ! data side_canvas)" by (simp add: side_canvas_def black_def)
  have c1': "1 < img_w ([black 2 2] ! data side_canvas)" by (simp add: side_canvas_def black_def)
  have A: "img_at (snd (render_point_cloud small_canvas ?pts [black 2 2]) ! 0) 1 1 = (128, 128, 128)"
    using t [THEN conjunct2, THEN conjunct2, THEN conjunct2, THEN conjunct2, THEN conjunct2,
             THEN conjunct1, THEN mp, OF hyp]
    by (simp add: small_canvas_def)
  have B: "fst (render_point_cloud small_canvas ?pts [black 2 2]) = Inr ()"
    by (rule t [THEN conjunct2, THEN conjunct1])
  have C: "img_at (snd (render_point_cloud small_canvas ?pts [black 2 2]) ! 0) 0 0 = (128, 128, 128)"
    using px [OF r0 c0]
    by (simp add: small_canvas_def kept_on_canvas_def to_pixel_def coord_def astype_int_def
          py_int_def black_def)
  have D: "img_at (snd (render_point_cloud small_canvas ?pts [black 2 2]) ! 0) 0 1 = (0, 0, 0)"
    using px [OF r0 c1]
    by (simp add: small_canvas_def kept_on_canvas_def to_pixel_def coord_def astype_int_def
          py_int_def black_def)
  have E: "to_pixel small_canvas 0 1 (- 1 / 2, 1 / 2, 9) = (0, 0)"
    using t [THEN conjunct2, THEN conjunct2, THEN conjunct2, THEN conjunct2, THEN conjunct2,
             THEN conjunct2, THEN conjunct2, THEN conjunct2, THEN conjunct2, THEN conjunct2,
             THEN conjunct1]
    by (simp add: small_canvas_def)
  have F: "to_pixel side_canvas 2 0 (1 / 2, 9, - 1 / 2) = (0, 0)"
    using s [THEN conjunct2, THEN conjunct2, THEN conjunct2, THEN conjunct2, THEN conjunct2,
             THEN conjunct2, THEN conjunct2, THEN conjunct2, THEN conjunct2, THEN conjunct2,
             THEN conjunct1]
    by (simp add: side_canvas_def)
  have G: "img_at (snd (render_point_cloud side_canvas [(1 / 2, 9, - 1 / 2)] [black 2 2]) ! 0) 0 0
             = (128, 128, 128)"
    using sx [OF r0' c0']
    by (simp add: side_canvas_def kept_on_canvas_def to_pixel_def coord_def astype_int_def
          py_int_def black_def)
  have H: "img_at (snd (render_point_cloud side_canvas [(1 / 2, 9, - 1 / 2)] [black 2 2]) ! 0) 1 1
             = (0, 0, 0)"
    using sx [OF r1' c1']
    by (simp add: side_canvas_def kept_on_canvas_def to_pixel_def coord_def astype_int_def
          py_int_def black_def)
  from A B C D E F G H show ?thesis by blast
qed



section \<open>The canvas constructor\<close>

lemma py_range_unit: "py_range a b 1 = Inr [a..b - 1]"
proof -
  have "map (\<lambda>k. a + int k * 1) [0..<nat ((b - a + 1 - 1) div 1)] = [a..b - 1]"
    by (rule nth_equalityI) auto
  then show ?thesis by (simp add: py_range_def)
qed

lemma foldl_mutate:
  "foldl (\<lambda>h' i. mutate d (f i) h') h xs = mutate d (\<lambda>im. foldl (\<lambda>im' i. f i im') im xs) h"
proof (induction xs arbitrary: h)
  case Nil
  show ?case by (simp add: mutate_ident)
next
  case (Cons x xs)
  show ?case by (simp add: Cons.IH mutate_mutate comp_def)
qed

lemma paint_shape: "img_h (paint fp col im) = img_h im" "img_w (paint fp col im) = img_w im"
  by (simp_all add: paint_def)

lemma foldl_paint_shape:
  "img_h (foldl (\<lambda>im' i. paint (f i) (k i) im') im xs) = img_h im
   \<and> img_w (foldl (\<lambda>im' i. paint (f i) (k i) im') im xs) = img_w im"
  by (induction xs arbitrary: im) (simp_all add: paint_shape)

lemma foldl_paint_const_at:
  "img_at (foldl (\<lambda>im' i. paint (f i) k im') im xs) r c
     = (if r < img_h im \<and> c < img_w im \<and> (\<exists>i \<in> set xs. (int c, int r) \<in> set (f i))
        then k else img_at im r c)"
proof (induction xs arbitrary: im)
  case Nil
  show ?case by simp
next
  case (Cons x xs)
  show ?case by (simp add: Cons.IH paint_shape) (auto simp: paint_def)
qed


lemma py_int_nonneg_iff: "0 \<le> py_int q \<longleftrightarrow> - 1 < q"
  by (auto simp: py_int_def)

lemma py_int_le_pos: "0 < py_int q \<Longrightarrow> of_int (py_int q) \<le> q"
  by (cases "0 \<le> q") (auto simp: py_int_def)

lemma py_int_ge_neg: "py_int q < 0 \<Longrightarrow> q \<le> of_int (py_int q)"
  by (cases "0 \<le> q") (auto simp: py_int_def)

lemma between_zero_scaled:
  fixes t M p :: rat
  assumes "- 1 < M * p" and "(0 \<le> t \<and> t \<le> M) \<or> (M \<le> t \<and> t \<le> 0)"
  shows "- 1 < t * p"
proof (cases "0 \<le> t * p")
  case True
  then show ?thesis by simp
next
  case False
  then have neg: "t * p < 0" by simp
  from assms(2) show ?thesis
  proof
    assume a: "0 \<le> t \<and> t \<le> M"
    with neg have "p < 0" by (metis mult_nonneg_nonneg not_le)
    with a have "M * p \<le> t * p" by (intro mult_right_mono_neg) simp_all
    with assms(1) show ?thesis by simp
  next
    assume a: "M \<le> t \<and> t \<le> 0"
    with neg have "0 < p" by (metis mult_nonpos_nonpos not_le)
    with a have "M * p \<le> t * p" by (intro mult_right_mono) simp_all
    with assms(1) show ?thesis by simp
  qed
qed

lemma polar_step_between:
  fixes M :: rat
  assumes "step \<noteq> 0" and "1 \<le> i" and "i \<le> py_int M div step - 1"
  shows "(0 \<le> (of_int (i * step) :: rat) \<and> of_int (i * step) \<le> M)
       \<or> (M \<le> of_int (i * step) \<and> (of_int (i * step) :: rat) \<le> 0)"
proof (cases "0 < step")
  case True
  let ?m = "py_int M" and ?n = "py_int M div step"
  have "?n * step \<le> ?m"
    using True by (metis div_mult_mod_eq pos_mod_sign add.commute le_add_same_cancel2 add.right_neutral add_le_cancel_left)
  moreover have "i * step \<le> (?n - 1) * step"
    using assms(3) True by (intro mult_right_mono) simp_all
  moreover have "(?n - 1) * step < ?n * step" using True by (simp add: algebra_simps)
  ultimately have lt: "i * step < ?m" by linarith
  have pos: "0 < i * step" using assms(2) True by (simp add: zero_less_mult_iff)
  with lt have "0 < ?m" by linarith
  then have "of_int ?m \<le> M" by (rule py_int_le_pos)
  moreover from lt have "(of_int (i * step) :: rat) \<le> of_int ?m" by (simp only: of_int_le_iff)
  moreover from pos have "0 \<le> (of_int (i * step) :: rat)" by (simp only: of_int_0_le_iff)
  ultimately show ?thesis by linarith
next
  case False
  with assms(1) have neg: "step < 0" by simp
  let ?m = "py_int M" and ?n = "py_int M div step"
  have "?m mod step \<le> 0" using neg by (simp add: neg_mod_sign less_imp_le)
  then have "?m \<le> ?n * step"
    by (metis div_mult_mod_eq add.commute add_le_same_cancel2 add.right_neutral add_le_cancel_left)
  moreover have "(?n - 1) * step \<le> i * step"
    using assms(3) neg by (intro mult_right_mono_neg) simp_all
  moreover have "?n * step < (?n - 1) * step" using neg by (simp add: algebra_simps)
  ultimately have lt: "?m < i * step" by linarith
  have neg': "i * step < 0" using assms(2) neg by (simp add: mult_less_0_iff)
  with lt have "?m < 0" by linarith
  then have "M \<le> of_int ?m" by (rule py_int_ge_neg)
  moreover from lt have "(of_int ?m :: rat) \<le> of_int (i * step)" by (simp only: of_int_le_iff)
  moreover from neg' have "(of_int (i * step) :: rat) \<le> 0" by (simp only: of_int_le_0_iff)
  ultimately show ?thesis by linarith
qed

lemma polar_radius_nonneg:
  assumes "step \<noteq> 0" and "0 \<le> py_int (mh * ppm)" and "0 \<le> py_int (mw * ppm)"
    and "i \<in> set [1..py_int (max mw mh) div step - 1]"
  shows "0 \<le> py_int (of_int i * of_int step * ppm)"
proof -
  from assms(2,3) have "- 1 < max mw mh * ppm"
    by (simp add: py_int_nonneg_iff max_def)
  moreover from assms(4) have "1 \<le> i" "i \<le> py_int (max mw mh) div step - 1" by simp_all
  from polar_step_between [OF assms(1) this] have
    "(0 \<le> (of_int (i * step) :: rat) \<and> of_int (i * step) \<le> max mw mh)
       \<or> (max mw mh \<le> of_int (i * step) \<and> (of_int (i * step) :: rat) \<le> 0)" .
  ultimately have "- 1 < of_int (i * step) * ppm" by (rule between_zero_scaled)
  then show ?thesis by (simp add: py_int_nonneg_iff)
qed


lemma polar_loop_ok:
  "d < length h \<Longrightarrow> 0 < img_h (h ! d) \<Longrightarrow> 0 < img_w (h ! d) \<Longrightarrow>
   (\<forall>i \<in> set steps. 0 \<le> py_int (of_int i * of_int step * ppm)) \<Longrightarrow>
   polar_loop R d center ppm step steps h
     = (Inr (),
        mutate d (\<lambda>im. foldl (\<lambda>im' i. paint (circle_px R center
                                            (py_int (of_int i * of_int step * ppm)) 1)
                                     (50, 50, 50) im') im steps) h)"
proof (induction steps arbitrary: h)
  case Nil
  show ?case by (simp add: mutate_ident)
next
  case (Cons i steps)
  let ?f = "paint (circle_px R center (py_int (of_int i * of_int step * ppm)) 1) (50, 50, 50)"
  let ?h = "mutate d ?f h"
  from Cons.prems have circ: "cv2_circle R d center (py_int (of_int i * of_int step * ppm))
                                (50, 50, 50) 1 h = Inr ?h"
    by (simp add: cv2_circle_def)
  have d': "d < length ?h" using Cons.prems(1) by (simp add: length_mutate)
  have shape: "0 < img_h (?h ! d)" "0 < img_w (?h ! d)"
    using Cons.prems(1,2,3) by (simp_all add: nth_mutate paint_shape)
  have rest: "\<forall>i \<in> set steps. 0 \<le> py_int (of_int i * of_int step * ppm)"
    using Cons.prems(4) by simp
  show ?case
    using Cons.IH [OF d' shape rest] by (simp add: circ mutate_mutate comp_def)
qed

lemma polar_loop_empty_canvas:
  "steps \<noteq> [] \<Longrightarrow> img_h (h ! d) = 0 \<or> img_w (h ! d) = 0 \<Longrightarrow>
   polar_loop R d center ppm step steps h = (Inl CvError, h)"
  by (cases steps) (auto simp: cv2_circle_def)

lemma BEVImage_init_eq:
  assumes "xa \<noteq> ya" and "step \<noteq> 0" and "0 \<le> py_int (mh * ppm)" and "0 \<le> py_int (mw * ppm)"
    and "(0 < py_int (mh * ppm) \<and> 0 < py_int (mw * ppm)) \<or> py_int (max mw mh) div step \<le> 1"
  shows "BEVImage_init R mw mh ppm step xa ya h
       = (Inr \<lparr>metric_width = mw, metric_height = mh, pixels_per_meter = ppm,
               xaxis = xa, yaxis = ya,
               center_pixel = (py_int (mw * ppm) div 2, py_int (mh * ppm) div 2),
               data = length h\<rparr>,
          h @ [polar_grid R (py_int (mw * ppm) div 2, py_int (mh * ppm) div 2) ppm step
                 (py_int (max mw mh) div step)
                 (black (nat (py_int (mh * ppm))) (nat (py_int (mw * ppm))))])"
proof -
  let ?c = "(py_int (mw * ppm) div 2, py_int (mh * ppm) div 2)"
  let ?z = "black (nat (py_int (mh * ppm))) (nat (py_int (mw * ppm)))"
  let ?n = "py_int (max mw mh) div step"
  have loop: "polar_loop R (length h) ?c ppm step [1..?n - 1] (h @ [?z])
                = (Inr (), h @ [polar_grid R ?c ppm step ?n ?z])"
  proof (cases "?n \<le> 1")
    case True
    then have "[1..?n - 1] = []" by simp
    then show ?thesis by (simp add: polar_grid_def)
  next
    case False
    with assms(5) have pos: "0 < py_int (mh * ppm)" "0 < py_int (mw * ppm)" by simp_all
    have rad: "\<forall>i \<in> set [1..?n - 1]. 0 \<le> py_int (of_int i * of_int step * ppm)"
      using polar_radius_nonneg [OF assms(2,3,4)] by blast
    have "polar_loop R (length h) ?c ppm step [1..?n - 1] (h @ [?z])
            = (Inr (), mutate (length h)
                 (\<lambda>im. foldl (\<lambda>im' i. paint (circle_px R ?c
                                            (py_int (of_int i * of_int step * ppm)) 1)
                                     (50, 50, 50) im') im [1..?n - 1]) (h @ [?z]))"
      using pos by (intro polar_loop_ok [OF _ _ _ rad]) (simp_all add: black_def)
    then show ?thesis by (simp add: mutate_last polar_grid_def)
  qed
  show ?thesis
    using assms(1,2,3,4)
    by (simp add: BEVImage_init_def np_zeros_def alloc_def Let_def py_range_unit loop)
qed

lemma BEVImage_init_empty_raster:
  assumes "xa \<noteq> ya" and "step \<noteq> 0" and "0 \<le> py_int (mh * ppm)" and "0 \<le> py_int (mw * ppm)"
    and "py_int (mh * ppm) = 0 \<or> py_int (mw * ppm) = 0" and "1 < py_int (max mw mh) div step"
  shows "BEVImage_init R mw mh ppm step xa ya h
       = (Inl CvError, h @ [black (nat (py_int (mh * ppm))) (nat (py_int (mw * ppm)))])"
proof -
  let ?c = "(py_int (mw * ppm) div 2, py_int (mh * ppm) div 2)"
  let ?z = "black (nat (py_int (mh * ppm))) (nat (py_int (mw * ppm)))"
  let ?n = "py_int (max mw mh) div step"
  have ne: "[1..?n - 1] \<noteq> []" using assms(6) by simp
  have empty: "img_h ((h @ [?z]) ! length h) = 0 \<or> img_w ((h @ [?z]) ! length h) = 0"
    using assms(5) by (auto simp: black_def)
  have loop: "polar_loop R (length h) ?c ppm step [1..?n - 1] (h @ [?z]) = (Inl CvError, h @ [?z])"
    by (rule polar_loop_empty_canvas [OF ne empty])
  show ?thesis
    using assms(1,2,3,4)
    by (simp add: BEVImage_init_def np_zeros_def alloc_def Let_def py_range_unit loop)
qed



text \<open>
  Claim C9, as the code has it. Equal axis indices fail the assertion and leave the
  store untouched. For differing axes, a non-zero polar step and pixel dimensions
  that are positive (or non-negative when the polar grid has no circle, that is when
  \<open>int(max(metric_width, metric_height)) // polar_step_size_meters \<le> 1\<close>), the
  constructor returns a canvas whose buffer is a new array of
  \<open>int(metric_height * pixels_per_meter)\<close> by \<open>int(metric_width * pixels_per_meter)\<close>
  pixels: the zero array with the polar grid drawn on it, so a pixel that no circle
  covers is zero. The center pixel is the floor of half the pixel dimensions, the
  configuration is stored, the arrays that existed are unchanged, and every radius
  passed to the circle primitive is non-negative. With an empty raster and a polar
  grid of at least one circle the constructor fails in the circle primitive.
\<close>

theorem BEVImage_init_checked:
  "(xa = ya \<longrightarrow>
      BEVImage_init R mw mh ppm step xa ya h
        = (Inl (AssertionError ''Provide different x and y axis coordinates''), h))
   \<and> (xa \<noteq> ya \<and> step \<noteq> 0 \<and> 0 \<le> py_int (mh * ppm) \<and> 0 \<le> py_int (mw * ppm)
        \<and> ((0 < py_int (mh * ppm) \<and> 0 < py_int (mw * ppm))
             \<or> py_int (max mw mh) div step \<le> 1) \<longrightarrow>
        (\<exists>self h'.
           BEVImage_init R mw mh ppm step xa ya h = (Inr self, h')
           \<and> data self = length h \<and> length h' = Suc (length h) \<and> take (length h) h' = h
           \<and> img_h (h' ! data self) = nat (py_int (mh * ppm))
           \<and> img_w (h' ! data self) = nat (py_int (mw * ppm))
           \<and> center_pixel self = (py_int (mw * ppm) div 2, py_int (mh * ppm) div 2)
           \<and> xaxis self = xa \<and> yaxis self = ya \<and> pixels_per_meter self = ppm
           \<and> metric_width self = mw \<and> metric_height self = mh
           \<and> h' ! data self
               = polar_grid R (center_pixel self) ppm step (py_int (max mw mh) div step)
                   (black (nat (py_int (mh * ppm))) (nat (py_int (mw * ppm))))
           \<and> (\<forall>r c. (\<forall>i \<in> set [1..py_int (max mw mh) div step - 1].
                        (int c, int r) \<notin> set (circle_px R (center_pixel self)
                                                 (py_int (of_int i * of_int step * ppm)) 1))
                  \<longrightarrow> img_at (h' ! data self) r c = (0, 0, 0))
           \<and> (\<forall>i \<in> set [1..py_int (max mw mh) div step - 1].
                  0 \<le> py_int (of_int i * of_int step * ppm))))
   \<and> (xa \<noteq> ya \<and> step \<noteq> 0 \<and> 0 \<le> py_int (mh * ppm) \<and> 0 \<le> py_int (mw * ppm)
        \<and> (py_int (mh * ppm) = 0 \<or> py_int (mw * ppm) = 0)
        \<and> 1 < py_int (max mw mh) div step \<longrightarrow>
        fst (BEVImage_init R mw mh ppm step xa ya h) = Inl CvError)"
proof (intro conjI impI)
  assume "xa \<noteq> ya \<and> step \<noteq> 0 \<and> 0 \<le> py_int (mh * ppm) \<and> 0 \<le> py_int (mw * ppm)
        \<and> (py_int (mh * ppm) = 0 \<or> py_int (mw * ppm) = 0)
        \<and> 1 < py_int (max mw mh) div step"
  then show "fst (BEVImage_init R mw mh ppm step xa ya h) = Inl CvError"
    using BEVImage_init_empty_raster [of xa ya step mh ppm mw R h] by simp
next
  assume "xa = ya"
  then show "BEVImage_init R mw mh ppm step xa ya h
        = (Inl (AssertionError ''Provide different x and y axis coordinates''), h)"
    by (simp add: BEVImage_init_def)
next
  assume a: "xa \<noteq> ya \<and> step \<noteq> 0 \<and> 0 \<le> py_int (mh * ppm) \<and> 0 \<le> py_int (mw * ppm)
        \<and> ((0 < py_int (mh * ppm) \<and> 0 < py_int (mw * ppm))
             \<or> py_int (max mw mh) div step \<le> 1)"
  let ?c = "(py_int (mw * ppm) div 2, py_int (mh * ppm) div 2)"
  let ?z = "black (nat (py_int (mh * ppm))) (nat (py_int (mw * ppm)))"
  let ?g = "polar_grid R ?c ppm step (py_int (max mw mh) div step) ?z"
  let ?self = "\<lparr>metric_width = mw, metric_height = mh, pixels_per_meter = ppm,
               xaxis = xa, yaxis = ya, center_pixel = ?c, data = length h\<rparr>"
  from a have eq: "BEVImage_init R mw mh ppm step xa ya h = (Inr ?self, h @ [?g])"
    by (intro BEVImage_init_eq) simp_all
  have shape: "img_h ?g = nat (py_int (mh * ppm))" "img_w ?g = nat (py_int (mw * ppm))"
    using foldl_paint_shape [of "\<lambda>i. circle_px R ?c (py_int (of_int i * of_int step * ppm)) 1"
            "\<lambda>i. (50, 50, 50)" ?z "[1..py_int (max mw mh) div step - 1]"]
    by (simp_all add: polar_grid_def black_def)
  have zero: "img_at ?g r c = (0, 0, 0)"
    if "\<forall>i \<in> set [1..py_int (max mw mh) div step - 1].
          (int c, int r) \<notin> set (circle_px R ?c (py_int (of_int i * of_int step * ppm)) 1)"
    for r c
    using that
      foldl_paint_const_at [of "\<lambda>i. circle_px R ?c (py_int (of_int i * of_int step * ppm)) 1"
        "(50, 50, 50)" ?z "[1..py_int (max mw mh) div step - 1]" r c]
    by (auto simp: polar_grid_def black_def)
  have rad: "\<forall>i \<in> set [1..py_int (max mw mh) div step - 1].
                  0 \<le> py_int (of_int i * of_int step * ppm)"
    using a polar_radius_nonneg [of step mh ppm mw] by blast
  have st: "(h @ [?g]) ! length h = ?g" by simp
  show "\<exists>self h'.
           BEVImage_init R mw mh ppm step xa ya h = (Inr self, h')
           \<and> data self = length h \<and> length h' = Suc (length h) \<and> take (length h) h' = h
           \<and> img_h (h' ! data self) = nat (py_int (mh * ppm))
           \<and> img_w (h' ! data self) = nat (py_int (mw * ppm))
           \<and> center_pixel self = (py_int (mw * ppm) div 2, py_int (mh * ppm) div 2)
           \<and> xaxis self = xa \<and> yaxis self = ya \<and> pixels_per_meter self = ppm
           \<and> metric_width self = mw \<and> metric_height self = mh
           \<and> h' ! data self
               = polar_grid R (center_pixel self) ppm step (py_int (max mw mh) div step)
                   (black (nat (py_int (mh * ppm))) (nat (py_int (mw * ppm))))
           \<and> (\<forall>r c. (\<forall>i \<in> set [1..py_int (max mw mh) div step - 1].
                        (int c, int r) \<notin> set (circle_px R (center_pixel self)
                                                 (py_int (of_int i * of_int step * ppm)) 1))
                  \<longrightarrow> img_at (h' ! data self) r c = (0, 0, 0))
           \<and> (\<forall>i \<in> set [1..py_int (max mw mh) div step - 1].
                  0 \<le> py_int (of_int i * of_int step * ppm))"
  proof (intro exI conjI)
    show "BEVImage_init R mw mh ppm step xa ya h = (Inr ?self, h @ [?g])" by (rule eq)
    show "data ?self = length h" by simp
    show "length (h @ [?g]) = Suc (length h)" by simp
    show "take (length h) (h @ [?g]) = h" by simp
    show "img_h ((h @ [?g]) ! data ?self) = nat (py_int (mh * ppm))"
      using shape(1) by (simp only: st BEVImage.simps)
    show "img_w ((h @ [?g]) ! data ?self) = nat (py_int (mw * ppm))"
      using shape(2) by (simp only: st BEVImage.simps)
    show "center_pixel ?self = ?c" by simp
    show "xaxis ?self = xa" by simp
    show "yaxis ?self = ya" by simp
    show "pixels_per_meter ?self = ppm" by simp
    show "metric_width ?self = mw" by simp
    show "metric_height ?self = mh" by simp
    show "(h @ [?g]) ! data ?self
            = polar_grid R (center_pixel ?self) ppm step (py_int (max mw mh) div step) ?z"
      by (simp only: st BEVImage.simps)
    show "\<forall>r c. (\<forall>i \<in> set [1..py_int (max mw mh) div step - 1].
                        (int c, int r) \<notin> set (circle_px R (center_pixel ?self)
                                                 (py_int (of_int i * of_int step * ppm)) 1))
                  \<longrightarrow> img_at ((h @ [?g]) ! data ?self) r c = (0, 0, 0)"
      using zero by (simp only: st BEVImage.simps) blast
    show "\<forall>i \<in> set [1..py_int (max mw mh) div step - 1].
                  0 \<le> py_int (of_int i * of_int step * ppm)"
      by (rule rad)
  qed
qed

theorem BEVImage_init_checked_witness:
  "BEVImage_init vertex_raster 1 1 2 1 0 0 []
     = (Inl (AssertionError ''Provide different x and y axis coordinates''), [])
   \<and> (\<exists>self h'. BEVImage_init vertex_raster 1 1 2 1 0 1 [] = (Inr self, h')
         \<and> img_h (h' ! data self) = 2 \<and> img_w (h' ! data self) = 2
         \<and> center_pixel self = (1, 1))
   \<and> fst (BEVImage_init vertex_raster 0 4 1 1 0 1 []) = Inl CvError"
proof -
  note t = BEVImage_init_checked [of 0 0 vertex_raster 1 1 2 1 "[]"]
  note v = BEVImage_init_checked [of 0 1 vertex_raster 0 4 1 1 "[]"]
  have h3: "(0 :: int) \<noteq> 1 \<and> (1 :: int) \<noteq> 0 \<and> 0 \<le> py_int (4 * 1) \<and> 0 \<le> py_int (0 * 1)
        \<and> (py_int (4 * 1) = 0 \<or> py_int (0 * 1) = 0) \<and> 1 < py_int (max 0 4) div 1"
    by (simp add: py_int_def)
  note fail = v [THEN conjunct2, THEN conjunct2, THEN mp, OF h3]
  note u = BEVImage_init_checked [of 0 1 vertex_raster 1 1 2 1 "[]"]
  have h1: "(0 :: int) = 0" by simp
  have h2: "(0 :: int) \<noteq> 1 \<and> (1 :: int) \<noteq> 0 \<and> 0 \<le> py_int (1 * 2) \<and> 0 \<le> py_int (1 * 2)
        \<and> ((0 < py_int (1 * 2) \<and> 0 < py_int (1 * 2)) \<or> py_int (max 1 1) div 1 \<le> 1)"
    by (simp add: py_int_def)
  have two: "nat (py_int (1 * 2)) = 2" "py_int (1 * 2) div 2 = 1" by (simp_all add: py_int_def)
  from u [THEN conjunct2, THEN conjunct1, THEN mp, OF h2] obtain self h' where
    e: "BEVImage_init vertex_raster 1 1 2 1 0 1 [] = (Inr self, h')"
    and hh: "img_h (h' ! data self) = nat (py_int (1 * 2))"
    and ww: "img_w (h' ! data self) = nat (py_int (1 * 2))"
    and cc: "center_pixel self = (py_int (1 * 2) div 2, py_int (1 * 2) div 2)"
    by blast
  have "\<exists>self h'. BEVImage_init vertex_raster 1 1 2 1 0 1 [] = (Inr self, h')
         \<and> img_h (h' ! data self) = 2 \<and> img_w (h' ! data self) = 2
         \<and> center_pixel self = (1, 1)"
    using e hh ww cc unfolding two by blast
  with t [THEN conjunct1, THEN mp, OF h1] fail show ?thesis by blast
qed

theorem BEVImage_init_counterexample:
  "(0 :: int) \<noteq> 1
   \<and> fst (BEVImage_init vertex_raster 100 100 10 0 0 1 []) = Inl ZeroDivisionError
   \<and> fst (BEVImage_init vertex_raster (- 100) 100 10 10 0 1 []) = Inl ValueError
   \<and> fst (BEVImage_init vertex_raster 0 4 1 1 0 1 []) = Inl CvError"
proof -
  have "fst (BEVImage_init vertex_raster 100 100 10 0 0 1 []) = Inl ZeroDivisionError"
    by (simp add: BEVImage_init_def np_zeros_def alloc_def py_int_def)
  moreover have "fst (BEVImage_init vertex_raster (- 100) 100 10 10 0 1 []) = Inl ValueError"
    by (simp add: BEVImage_init_def np_zeros_def alloc_def py_int_def)
  moreover have "fst (BEVImage_init vertex_raster 0 4 1 1 0 1 []) = Inl CvError"
    by (simp add: BEVImage_init_empty_raster py_int_def)
  ultimately show ?thesis by simp
qed


section \<open>The 3D box renderer: the drawn canvas\<close>
















section \<open>Which arrays a call changes\<close>

lemma setitem_points_frame:
  "length (snd (setitem_points a ps h)) = length h
   \<and> (\<forall>b. b \<noteq> a \<longrightarrow> snd (setitem_points a ps h) ! b = h ! b)"
proof (induction ps arbitrary: h)
  case Nil
  show ?case by simp
next
  case (Cons p ps)
  obtain u v col where p: "p = ((u, v), col)" by (cases p) auto
  show ?case
    using Cons.IH
    by (auto simp: p length_mutate nth_mutate_other split: sum.splits)
qed

lemma draw_bbox3d_frame:
  "length (snd (draw_bbox3d R self colors texts bidx corners h)) = length h
   \<and> (\<forall>b. b \<noteq> data self \<longrightarrow> snd (draw_bbox3d R self colors texts bidx corners h) ! b = h ! b)"
  by (simp add: draw_bbox3d_def Let_def cv2_circle_def cv2_line_def cv2_putText_def
        length_mutate nth_mutate_other split: sum.splits)

lemma render_bboxes_loop_frame:
  "length (snd (render_bboxes_loop R self colors texts n bs h)) = length h
   \<and> (\<forall>b. b \<noteq> data self \<longrightarrow> snd (render_bboxes_loop R self colors texts n bs h) ! b = h ! b)"
proof (induction bs arbitrary: n h)
  case Nil
  show ?case by simp
next
  case (Cons x bs)
  obtain res h1 where d: "draw_bbox3d R self colors texts n x h = (res, h1)"
    by (cases "draw_bbox3d R self colors texts n x h") auto
  from draw_bbox3d_frame [of R self colors texts n x h] d
  have f1: "length h1 = length h" "\<forall>b. b \<noteq> data self \<longrightarrow> h1 ! b = h ! b" by simp_all
  show ?case
  proof (cases res)
    case (Inl e)
    with d f1 show ?thesis by simp
  next
    case (Inr u)
    with d f1 Cons.IH [of "Suc n" h1] show ?thesis by simp
  qed
qed

lemma render_bbox2d_frame:
  "length (snd (render_bbox2d_on_image R img bs colors texts h)) = length h
   \<and> (\<forall>b. b \<noteq> img \<longrightarrow> snd (render_bbox2d_on_image R img bs colors texts h) ! b = h ! b)
   \<and> (\<forall>res. fst (render_bbox2d_on_image R img bs colors texts h) = Inr res \<longrightarrow> res = img)"
proof -
  have db: "length (draw_boxes R img xs cs h0) = length h0
            \<and> (\<forall>b. b \<noteq> img \<longrightarrow> draw_boxes R img xs cs h0 ! b = h0 ! b)" for xs cs h0
    unfolding draw_boxes_def
    using foldl_mutate [of img "\<lambda>p. paint (polylines_px R [snd p] True 2) (cs ! fst p)" h0
            "enumerate 0 xs"]
    by (simp add: cv2_polylines_def split_def length_mutate nth_mutate_other)
  have dt: "length (draw_texts R img xs ts h0) = length h0
            \<and> (\<forall>b. b \<noteq> img \<longrightarrow> draw_texts R img xs ts h0 ! b = h0 ! b)" for xs ts h0
    unfolding draw_texts_def
    using foldl_mutate [of img "\<lambda>p. render_text R (ts ! fst p) (snd p ! 0) 1 COLOR_WHITE 2 True" h0
            "enumerate 0 xs"]
    by (simp add: cv2_putText_def split_def length_mutate nth_mutate_other)
  show ?thesis
    by (cases colors; cases "truthy texts")
       (simp_all add: render_bbox2d_on_image_def Let_def db dt cv2_polylines_def
          length_mutate nth_mutate_other)
qed


text \<open>
  Claim C1, as the code has it. The status bar, the 2D box renderer and the two
  canvas methods work in place: they change no array but the one passed (the canvas
  buffer for the methods), allocate nothing, and the two functions return the handle
  they were given. The image renderer of point clouds does not: it leaves every
  existing array unchanged, the input image included, and returns the handle of a
  newly allocated composite.
\<close>

theorem rendering_buffers:
  assumes "img < length h"
  shows "print_status R img text h
           = (Inr img,
              mutate img
                (\<lambda>im. render_text R text (5, int (img_h (h ! img)) - 5) (4 / 5) COLOR_WHITE 1 False
                         (paint (rectangle_px R (0, int (img_h (h ! img)) - 40)
                                   (int (img_w (h ! img)), int (img_h (h ! img))) (- 1))
                            COLOR_DARKGRAY im)) h)
       \<and> length (snd (render_bbox2d_on_image R img bs colors texts h)) = length h
       \<and> (\<forall>b. b \<noteq> img \<longrightarrow> snd (render_bbox2d_on_image R img bs colors texts h) ! b = h ! b)
       \<and> (\<forall>res. fst (render_bbox2d_on_image R img bs colors texts h) = Inr res \<longrightarrow> res = img)
       \<and> length (snd (render_point_cloud self pts h)) = length h
       \<and> (\<forall>b. b \<noteq> data self \<longrightarrow> snd (render_point_cloud self pts h) ! b = h ! b)
       \<and> length (snd (render_bounding_box_3d R self bboxes3d color labels h)) = length h
       \<and> (\<forall>b. b \<noteq> data self \<longrightarrow>
             snd (render_bounding_box_3d R self bboxes3d color labels h) ! b = h ! b)
       \<and> fst (render_pointcloud_on_image cmap img cam Xw pct h) = Inr (length h + 2)
       \<and> length h + 2 \<noteq> img
       \<and> take (length h) (snd (render_pointcloud_on_image cmap img cam Xw pct h)) = h
       \<and> snd (render_pointcloud_on_image cmap img cam Xw pct h) ! img = h ! img
       \<and> snd (render_pointcloud_on_image cmap img cam Xw pct h) ! (length h + 2)
           = composite (overlay cmap cam pct Xw (h ! img)) (h ! img)"
proof (intro conjI)
  show "print_status R img text h
           = (Inr img,
              mutate img
                (\<lambda>im. render_text R text (5, int (img_h (h ! img)) - 5) (4 / 5) COLOR_WHITE 1 False
                         (paint (rectangle_px R (0, int (img_h (h ! img)) - 40)
                                   (int (img_w (h ! img)), int (img_h (h ! img))) (- 1))
                            COLOR_DARKGRAY im)) h)"
    by (simp add: print_status_def Let_def cv2_rectangle_def cv2_putText_def mutate_mutate comp_def)
  show "length (snd (render_bbox2d_on_image R img bs colors texts h)) = length h"
    "\<forall>b. b \<noteq> img \<longrightarrow> snd (render_bbox2d_on_image R img bs colors texts h) ! b = h ! b"
    "\<forall>res. fst (render_bbox2d_on_image R img bs colors texts h) = Inr res \<longrightarrow> res = img"
    using render_bbox2d_frame [of R img bs colors texts h] by blast+
  have rpc: "length (snd (render_point_cloud self pts h)) = length h
       \<and> (\<forall>b. b \<noteq> data self \<longrightarrow> snd (render_point_cloud self pts h) ! b = h ! b)"
    by (simp add: render_point_cloud_def Let_def setitem_points_frame split: sum.splits)
  then show "length (snd (render_point_cloud self pts h)) = length h"
    "\<forall>b. b \<noteq> data self \<longrightarrow> snd (render_point_cloud self pts h) ! b = h ! b"
    by blast+
  show "length (snd (render_bounding_box_3d R self bboxes3d color labels h)) = length h"
    "\<forall>b. b \<noteq> data self \<longrightarrow>
             snd (render_bounding_box_3d R self bboxes3d color labels h) ! b = h ! b"
    by (simp_all add: render_bounding_box_3d_def render_bboxes_loop_frame)
  note eq = render_pointcloud_eq [OF assms, of cmap cam Xw pct]
  show "fst (render_pointcloud_on_image cmap img cam Xw pct h) = Inr (length h + 2)"
    by (simp add: eq)
  show "length h + 2 \<noteq> img" using assms by simp
  show "take (length h) (snd (render_pointcloud_on_image cmap img cam Xw pct h)) = h"
    by (simp add: eq)
  show "snd (render_pointcloud_on_image cmap img cam Xw pct h) ! img = h ! img"
    using assms by (simp add: eq nth_append)
  show "snd (render_pointcloud_on_image cmap img cam Xw pct h) ! (length h + 2)
           = composite (overlay cmap cam pct Xw (h ! img)) (h ! img)"
    by (simp add: eq nth_append)
qed

theorem rendering_buffers_witness:
  "fst (print_status vertex_raster 0 ''ok'' [black 2 2]) = Inr 0
   \<and> fst (render_pointcloud_on_image one_color 0 unit_camera [(1, 1, 1)] 80 [black 2 2]) = Inr 3
   \<and> snd (render_pointcloud_on_image one_color 0 unit_camera [(1, 1, 1)] 80 [black 2 2]) ! 0
       = black 2 2"
proof -
  have a: "0 < length [black 2 2]" by simp
  note t = rendering_buffers [OF a, of vertex_raster "''ok''" "[]" None None small_canvas "[]" "[]"
             None None one_color unit_camera "[(1, 1, 1)]" 80]
  have "fst (print_status vertex_raster 0 ''ok'' [black 2 2]) = Inr 0"
    using t [THEN conjunct1] by simp
  moreover have "fst (render_pointcloud_on_image one_color 0 unit_camera [(1, 1, 1)] 80 [black 2 2])
                   = Inr 3"
    using t [THEN conjunct2, THEN conjunct2, THEN conjunct2, THEN conjunct2, THEN conjunct2,
             THEN conjunct2, THEN conjunct2, THEN conjunct2, THEN conjunct1] by simp
  moreover have "snd (render_pointcloud_on_image one_color 0 unit_camera [(1, 1, 1)] 80 [black 2 2])
                   ! 0 = black 2 2"
    using t [THEN conjunct2, THEN conjunct2, THEN conjunct2, THEN conjunct2, THEN conjunct2,
             THEN conjunct2, THEN conjunct2, THEN conjunct2, THEN conjunct2, THEN conjunct2,
             THEN conjunct2, THEN conjunct1] by simp
  ultimately show ?thesis by blast
qed

theorem render_pointcloud_not_in_place_counterexample:
  "fst (render_pointcloud_on_image one_color 0 unit_camera [(1, 1, 1)] 80 [black 2 2]) = Inr 3
   \<and> img_at (snd (render_pointcloud_on_image one_color 0 unit_camera [(1, 1, 1)] 80 [black 2 2])
               ! 3) 1 1 = COLOR_RED
   \<and> img_at (snd (render_pointcloud_on_image one_color 0 unit_camera [(1, 1, 1)] 80 [black 2 2])
               ! 0) 1 1 = (0, 0, 0)
   \<and> snd (render_pointcloud_on_image one_color 0 unit_camera [(1, 1, 1)] 80 [black 2 2]) ! 0
       = black 2 2"
proof -
  have a: "0 < length [black 2 2]" by simp
  note eq = render_pointcloud_eq [OF a, of one_color unit_camera "[(1, 1, 1)]" 80]
  have p1: "fst (render_pointcloud_on_image one_color 0 unit_camera [(1, 1, 1)] 80 [black 2 2])
              = Inr 3"
    by (simp add: eq)
  have p4: "snd (render_pointcloud_on_image one_color 0 unit_camera [(1, 1, 1)] 80 [black 2 2]) ! 0
       = black 2 2"
    by (simp add: eq)
  have p2: "img_at (snd (render_pointcloud_on_image one_color 0 unit_camera [(1, 1, 1)] 80
                      [black 2 2]) ! 3) 1 1 = COLOR_RED"
    by code_simp
  have p3: "img_at (black 2 2) 1 1 = (0, 0, 0)" by (simp add: black_def)
  from p1 p2 p3 p4 show ?thesis by simp
qed


section \<open>The mosaic: grid arithmetic\<close>

lemma ceil_sqrt_pos: "0 < n \<Longrightarrow> 0 < ceil_sqrt n"
  by (cases n) (simp_all add: ceil_sqrt_def upt_conv_Cons del: upt_Suc)

lemma ceil_div_bounds:
  assumes "0 < g"
  shows "n \<le> g * ceil_div n g" and "g * (ceil_div n g - 1) < n"
proof -
  have r: "0 \<le> (- n) mod g" "(- n) mod g < g" using assms by simp_all
  have "g * ceil_div n g = - ((- n) div g * g)"
    by (simp add: ceil_div_def mult.commute)
  also have "\<dots> = - (- n - (- n) mod g)"
    by (simp only: minus_mod_eq_div_mult)
  also have "\<dots> = n + (- n) mod g" by simp
  finally have "g * ceil_div n g = n + (- n) mod g" .
  with r show "n \<le> g * ceil_div n g" and "g * (ceil_div n g - 1) < n"
    by (simp_all add: algebra_simps)
qed

lemma ceil_div_pos:
  assumes "0 < g" and "0 < n"
  shows "0 < ceil_div n g"
proof (rule ccontr)
  assume "\<not> 0 < ceil_div n g"
  then have "ceil_div n g \<le> 0" by simp
  with assms(1) have "g * ceil_div n g \<le> 0" by (simp add: mult_le_0_iff)
  with ceil_div_bounds(1) [OF assms(1), of n] assms(2) show False by linarith
qed

lemma rows_of_range:
  assumes "0 < g" and "0 \<le> m"
  shows "py_range 0 (g * m) g = Inr (map (\<lambda>k. int k * g) [0..<nat m])"
proof -
  have "g * m - 0 + g - 1 = (g - 1) + m * g" by (simp add: algebra_simps)
  then have "(g * m - 0 + g - 1) div g = ((g - 1) + m * g) div g" by (simp only:)
  also have "\<dots> = (g - 1) div g + m" using assms(1) by simp
  also have "(g - 1) div g = 0" using assms(1) by simp
  finally have "(g * m - 0 + g - 1) div g = m" by simp
  then show ?thesis using assms(1) by (simp add: py_range_def)
qed

lemma py_slice_chunk:
  assumes "0 \<le> a" and "0 \<le> g" and "a + g \<le> int (length xs)"
  shows "py_slice xs a (a + g) = take (nat g) (drop (nat a) xs)"
  using assms by (simp add: py_slice_def Let_def min_def)


section \<open>The mosaic: tiles, rows and the stacked array\<close>

lemma cv2_resize_ok:
  "0 < img_h im \<Longrightarrow> 0 < img_w im \<Longrightarrow> 0 < tw \<Longrightarrow> 0 < th \<Longrightarrow>
   cv2_resize R im (tw, th) = Inr (resized R im (nat th) (nat tw))"
  by (simp add: cv2_resize_def resized_def)

lemma im_pad_ok: "0 \<le> p \<Longrightarrow> im_pad p im = Inr (padded (nat p) im)"
  by (simp add: im_pad_def cv2_copyMakeBorder_def padded_def)

lemma map_err_map:
  "(\<forall>k \<in> set ks. f (s k) = Inr (g k)) \<Longrightarrow> map_err f (map s ks) = Inr (map g ks)"
  by (induction ks) simp_all

lemma map_nat_upto: "map nat [0..m] = [0..<nat (m + 1)]"
proof (rule nth_equalityI)
  show "length (map nat [0..m]) = length [0..<nat (m + 1)]" by simp
next
  fix i assume "i < length (map nat [0..m])"
  then have i: "i < nat (m + 1)" by simp
  then have "0 + int i \<le> m" by linarith
  then have "[0..m] ! i = 0 + int i" by (rule nth_upto)
  with i have "map nat [0..m] ! i = i" by simp
  moreover from i have "0 + i < nat (m + 1)" by simp
  then have "[0..<nat (m + 1)] ! i = 0 + i" by (rule nth_upt)
  ultimately show "map nat [0..m] ! i = [0..<nat (m + 1)] ! i" by simp
qed

lemma cell_shape:
  "img_h (cell R items hh ww k) = hh" "img_w (cell R items hh ww k) = ww"
  by (simp_all add: cell_def resized_def black_def)

lemma mosaic_loop_rest:
  assumes "\<forall>im \<in> set items. 0 < img_h im \<and> 0 < img_w im" and "0 < tw" and "0 < th"
  shows "acc \<noteq> [] \<Longrightarrow> (\<forall>x \<in> set acc. img_h x = nat th \<and> img_w x = nat tw) \<Longrightarrow>
         (\<forall>j \<in> set js. 0 \<le> j) \<Longrightarrow>
         mosaic_loop R items (tw, th) js acc
           = Inr (acc @ map (\<lambda>j. cell R items (nat th) (nat tw) (nat j)) js)"
proof (induction js arbitrary: acc)
  case Nil
  show ?case by simp
next
  case (Cons j js)
  from Cons.prems have j0: "0 \<le> j" and rest: "\<forall>j \<in> set js. 0 \<le> j" by simp_all
  let ?c = "cell R items (nat th) (nat tw) (nat j)"
  have next_acc: "acc @ [?c] \<noteq> []"
    "\<forall>x \<in> set (acc @ [?c]). img_h x = nat th \<and> img_w x = nat tw"
    using Cons.prems(2) by (simp_all add: cell_shape)
  show ?case
  proof (cases "j < int (length items)")
    case True
    with j0 have k: "nat j < length items" by simp
    then have "items ! nat j \<in> set items" by simp
    with assms have "cv2_resize R (items ! nat j) (tw, th)
        = Inr (resized R (items ! nat j) (nat th) (nat tw))"
      by (intro cv2_resize_ok) auto
    moreover have "?c = resized R (items ! nat j) (nat th) (nat tw)"
      using k by (simp add: cell_def)
    ultimately show ?thesis
      using True Cons.IH [OF next_acc rest] by simp
  next
    case False
    with j0 have k: "\<not> nat j < length items" by simp
    have "last acc \<in> set acc" using Cons.prems(1) by simp
    with Cons.prems(2) have "np_zeros_like (last acc) = black (nat th) (nat tw)"
      by (simp add: np_zeros_like_def)
    moreover have "?c = black (nat th) (nat tw)" using k by (simp add: cell_def)
    ultimately show ?thesis
      using False Cons.prems(1) Cons.IH [OF next_acc rest] by simp
  qed
qed

lemma mosaic_loop_all:
  assumes "items \<noteq> []" and "\<forall>im \<in> set items. 0 < img_h im \<and> 0 < img_w im"
    and "0 < tw" and "0 < th" and "1 \<le> n"
  shows "mosaic_loop R items (tw, th) [0..n - 1] []
           = Inr (map (cell R items (nat th) (nat tw)) [0..<nat n])"
proof -
  have split: "[0..n - 1] = 0 # [1..n - 1]" using assms(5) by (simp add: upto_rec1)
  let ?c0 = "cell R items (nat th) (nat tw) 0"
  have first: "cv2_resize R (items ! 0) (tw, th) = Inr ?c0"
    using assms(1,2,3,4) by (simp add: cell_def cv2_resize_ok)
  have "mosaic_loop R items (tw, th) [1..n - 1] [?c0]
          = Inr ([?c0] @ map (\<lambda>j. cell R items (nat th) (nat tw) (nat j)) [1..n - 1])"
    using assms(2,3,4) by (intro mosaic_loop_rest) (auto simp: cell_shape)
  then have "mosaic_loop R items (tw, th) [0..n - 1] []
          = Inr (map (\<lambda>j. cell R items (nat th) (nat tw) (nat j)) [0..n - 1])"
    using assms(1) first by (simp add: split)
  also have "map (\<lambda>j. cell R items (nat th) (nat tw) (nat j)) [0..n - 1]
           = map (cell R items (nat th) (nat tw)) (map nat [0..n - 1])"
    by (simp add: comp_def)
  also have "map nat [0..n - 1] = [0..<nat n]"
    using map_nat_upto [of "n - 1"] by simp
  finally show ?thesis .
qed

lemma sum_list_uniform: "(\<forall>t \<in> set ts. f t = (k :: nat)) \<Longrightarrow> sum_list (map f ts) = length ts * k"
  by (induction ts) simp_all

lemma np_hstack_uniform:
  assumes "ts \<noteq> []" and "\<forall>t \<in> set ts. img_h t = hh \<and> img_w t = ww"
  shows "np_hstack ts = Inr \<lparr>img_h = hh, img_w = length ts * ww, img_at = hcat_at ts\<rparr>"
proof -
  from assms(1) obtain t ts' where ts: "ts = t # ts'" by (cases ts) auto
  have "sum_list (map img_w ts) = length ts * ww"
    using assms(2) by (intro sum_list_uniform) simp
  with assms(2) show ?thesis
    by (simp add: np_hstack_def ts list_all_iff)
qed

lemma np_vstack_uniform:
  assumes "ts \<noteq> []" and "\<forall>t \<in> set ts. img_h t = hh \<and> img_w t = ww"
  shows "np_vstack ts = Inr \<lparr>img_h = length ts * hh, img_w = ww, img_at = vcat_at ts\<rparr>"
proof -
  from assms(1) obtain t ts' where ts: "ts = t # ts'" by (cases ts) auto
  have "sum_list (map img_h ts) = length ts * hh"
    using assms(2) by (intro sum_list_uniform) simp
  with assms(2) show ?thesis
    by (simp add: np_vstack_def ts list_all_iff)
qed

lemma hcat_at_uniform:
  "(\<forall>t \<in> set ts. img_w t = ww) \<Longrightarrow> 0 < ww \<Longrightarrow> c < length ts * ww \<Longrightarrow>
   hcat_at ts r c = img_at (ts ! (c div ww)) r (c mod ww)"
proof (induction ts arbitrary: c)
  case Nil
  then show ?case by simp
next
  case (Cons t ts)
  show ?case
  proof (cases "c < ww")
    case True
    with Cons.prems show ?thesis by simp
  next
    case False
    then have ge: "ww \<le> c" by simp
    with Cons.prems have "c - ww < length ts * ww" by simp
    with Cons.prems Cons.IH [of "c - ww"] have
      "hcat_at ts r (c - ww) = img_at (ts ! ((c - ww) div ww)) r ((c - ww) mod ww)" by simp
    moreover have "c div ww = Suc ((c - ww) div ww)" using ge Cons.prems(2) by (simp add: le_div_geq)
    moreover have "c mod ww = (c - ww) mod ww" using ge by (simp add: le_mod_geq)
    ultimately show ?thesis using False Cons.prems(1) by simp
  qed
qed

lemma vcat_at_uniform:
  "(\<forall>t \<in> set ts. img_h t = hh) \<Longrightarrow> 0 < hh \<Longrightarrow> r < length ts * hh \<Longrightarrow>
   vcat_at ts r c = img_at (ts ! (r div hh)) (r mod hh) c"
proof (induction ts arbitrary: r)
  case Nil
  then show ?case by simp
next
  case (Cons t ts)
  show ?case
  proof (cases "r < hh")
    case True
    with Cons.prems show ?thesis by simp
  next
    case False
    then have ge: "hh \<le> r" by simp
    with Cons.prems have "r - hh < length ts * hh" by simp
    with Cons.prems Cons.IH [of "r - hh"] have
      "vcat_at ts (r - hh) c = img_at (ts ! ((r - hh) div hh)) ((r - hh) mod hh) c" by simp
    moreover have "r div hh = Suc ((r - hh) div hh)" using ge Cons.prems(2) by (simp add: le_div_geq)
    moreover have "r mod hh = (r - hh) mod hh" using ge by (simp add: le_mod_geq)
    ultimately show ?thesis using False Cons.prems(1) by simp
  qed
qed


lemma mosaic_eval:
  fixes R :: raster
  assumes ne: "items \<noteq> []"
    and pos: "\<forall>im \<in> set items. 0 < img_h im \<and> 0 < img_w im"
    and tw: "0 < py_int (of_nat (img_w (items ! 0)) * scale)"
    and th: "0 < py_int (of_nat (img_h (items ! 0)) * scale)"
    and pad: "0 \<le> pad"
    and gw: "0 < grid_cols grid_width (length items)"
  defines "G \<equiv> nat (grid_cols grid_width (length items))"
    and "M \<equiv> nat (ceil_div (int (length items)) (grid_cols grid_width (length items)))"
    and "hh \<equiv> nat (py_int (of_nat (img_h (items ! 0)) * scale))"
    and "ww \<equiv> nat (py_int (of_nat (img_w (items ! 0)) * scale))"
  defines "T \<equiv> map (\<lambda>k. padded (nat pad) (cell R items hh ww k)) [0..<G * M]"
  defines "rows \<equiv> map (\<lambda>k. \<lparr>img_h = hh + 2 * nat pad, img_w = G * (ww + 2 * nat pad),
                              img_at = hcat_at (take G (drop (k * G) T))\<rparr>) [0..<M]"
  shows "mosaic R items scale pad grid_width
           = Inr (if 1 < M
                  then \<lparr>img_h = M * (hh + 2 * nat pad), img_w = G * (ww + 2 * nat pad),
                        img_at = vcat_at rows\<rparr>
                  else rows ! 0)"
    and "0 < G" and "0 < M" and "length items \<le> G * M"
proof -
  define gwi where "gwi = (case grid_width of
                    None \<Rightarrow> int (ceil_sqrt (length items))
                  | Some g \<Rightarrow> if g \<noteq> 0 then g else int (ceil_sqrt (length items)))"
  define ghi where "ghi = ceil_div (int (length items)) gwi"
  define twi where "twi = py_int (of_nat (snd (img_h (items ! 0), img_w (items ! 0))) * scale)"
  define thi where "thi = py_int (of_nat (fst (img_h (items ! 0), img_w (items ! 0))) * scale)"
  have gwi_eq: "gwi = grid_cols grid_width (length items)"
    by (simp add: gwi_def grid_cols_def split: option.splits)
  have Npos: "0 < int (length items)" using ne by simp
  have gwi_pos: "0 < gwi" using gw by (simp add: gwi_eq)
  have ghi_pos: "0 < ghi" unfolding ghi_def by (rule ceil_div_pos [OF gwi_pos Npos])
  have G: "int G = gwi" using gwi_pos by (simp add: G_def gwi_eq)
  have M: "int M = ghi" using ghi_pos by (simp add: M_def ghi_def gwi_eq)
  show Gpos: "0 < G" using gwi_pos G by linarith
  show Mpos: "0 < M" using ghi_pos M by linarith
  have GM: "int (G * M) = gwi * ghi" by (simp add: G M)
  have "int (length items) \<le> gwi * ghi"
    unfolding ghi_def by (rule ceil_div_bounds(1) [OF gwi_pos])
  then show "length items \<le> G * M" using GM by linarith
  have twi_eq: "twi = py_int (of_nat (img_w (items ! 0)) * scale)" by (simp add: twi_def)
  have thi_eq: "thi = py_int (of_nat (img_h (items ! 0)) * scale)" by (simp add: thi_def)
  have hw: "nat thi = hh" "nat twi = ww" by (simp_all add: hh_def ww_def twi_eq thi_eq)
  define cells where "cells = map (cell R items hh ww) [0..<G * M]"
  define starts where "starts = map (\<lambda>k. int k * gwi) [0..<M]"
  have one: "1 \<le> gwi * ghi" using gwi_pos ghi_pos by (simp add: mult_pos_pos int_one_le_iff_zero_less)
  have r1: "py_range 0 (gwi * ghi) 1 = Inr [0..gwi * ghi - 1]" by (rule py_range_unit)
  have "mosaic_loop R items (twi, thi) [0..gwi * ghi - 1] []
          = Inr (map (cell R items (nat thi) (nat twi)) [0..<nat (gwi * ghi)])"
    using ne pos tw th one by (intro mosaic_loop_all) (simp_all add: twi_eq thi_eq)
  then have r2: "mosaic_loop R items (twi, thi) [0..gwi * ghi - 1] [] = Inr cells"
    using GM by (simp add: cells_def hw nat_mult_distrib flip: G M)
  have r3: "map_err (im_pad pad) cells = Inr T"
    unfolding cells_def T_def using pad by (intro map_err_map) (simp add: im_pad_ok)
  have lenT: "int (length T) = gwi * ghi" by (simp add: T_def GM del: of_nat_mult)
  have r4: "py_range 0 (int (length T)) gwi = Inr starts"
  proof -
    have "nat ghi = M" using M by linarith
    then show ?thesis
      unfolding lenT starts_def using rows_of_range [OF gwi_pos, of ghi] ghi_pos by simp
  qed
  have Tshape: "\<forall>t \<in> set T. img_h t = hh + 2 * nat pad \<and> img_w t = ww + 2 * nat pad"
    by (auto simp: T_def padded_def cell_shape)
  have r5: "map_err (\<lambda>j. np_hstack (py_slice T j (j + gwi))) starts = Inr rows"
    unfolding starts_def rows_def
  proof (rule map_err_map, rule ballI)
    fix k assume "k \<in> set [0..<M]"
    then have k: "k < M" by simp
    then have "Suc k * G \<le> M * G" by (intro mult_le_mono1) simp
    then have fit: "k * G + G \<le> length T" by (simp add: T_def mult.commute)
    then have "int (k * G + G) \<le> int (length T)" by (simp only: of_nat_le_iff)
    then have fit': "int k * int G + int G \<le> int (length T)" by simp
    have "py_slice T (int k * int G) (int k * int G + int G)
            = take (nat (int G)) (drop (nat (int k * int G)) T)"
      using fit' by (intro py_slice_chunk) simp_all
    then have sl: "py_slice T (int k * gwi) (int k * gwi + gwi) = take G (drop (k * G) T)"
      unfolding G [symmetric] by (simp add: nat_mult_distrib)
    have len: "length (take G (drop (k * G) T)) = G" using fit by simp
    then have nonempty: "take G (drop (k * G) T) \<noteq> []" using Gpos by auto
    have sub: "\<forall>t \<in> set (take G (drop (k * G) T)).
                 img_h t = hh + 2 * nat pad \<and> img_w t = ww + 2 * nat pad"
      using Tshape by (meson in_set_dropD in_set_takeD)
    show "np_hstack (py_slice T (int k * gwi) (int k * gwi + gwi))
            = Inr \<lparr>img_h = hh + 2 * nat pad, img_w = G * (ww + 2 * nat pad),
                   img_at = hcat_at (take G (drop (k * G) T))\<rparr>"
      unfolding sl using np_hstack_uniform [OF nonempty sub] len by simp
  qed
  have lenrows: "length rows = M" by (simp add: rows_def)
  have rshape: "\<forall>t \<in> set rows. img_h t = hh + 2 * nat pad \<and> img_w t = G * (ww + 2 * nat pad)"
    by (auto simp: rows_def)
  have rne: "rows \<noteq> []" using lenrows Mpos by auto
  have r6: "(if length rows > 1 then np_vstack rows
             else (case rows of [] \<Rightarrow> Inl IndexError | m # _ \<Rightarrow> Inr m))
          = Inr (if 1 < M
                  then \<lparr>img_h = M * (hh + 2 * nat pad), img_w = G * (ww + 2 * nat pad),
                        img_at = vcat_at rows\<rparr>
                  else rows ! 0)"
  proof (cases "1 < M")
    case True
    then show ?thesis
      using np_vstack_uniform [OF rne rshape] lenrows by simp
  next
    case False
    from rne obtain m ms where "rows = m # ms" by (cases rows) auto
    with False lenrows show ?thesis by simp
  qed
  show "mosaic R items scale pad grid_width
           = Inr (if 1 < M
                  then \<lparr>img_h = M * (hh + 2 * nat pad), img_w = G * (ww + 2 * nat pad),
                        img_at = vcat_at rows\<rparr>
                  else rows ! 0)"
    unfolding mosaic_def Let_def gwi_def [symmetric] ghi_def [symmetric]
      twi_def [symmetric] thi_def [symmetric]
    by (simp only: Npos not_True_eq_False if_False r1 r2 r3 r4 r5 r6 sum.case)
qed


lemma padded_shape:
  "img_h (padded p im) = img_h im + 2 * p" "img_w (padded p im) = img_w im + 2 * p"
  by (simp_all add: padded_def)

lemma hcat_at_single: "hcat_at [padded p im] = img_at (padded p im)"
  by (auto simp: fun_eq_iff padded_def)

lemma mosaic_pixels:
  fixes R :: raster
  assumes ne: "items \<noteq> []"
    and pos: "\<forall>im \<in> set items. 0 < img_h im \<and> 0 < img_w im"
    and tw: "0 < py_int (of_nat (img_w (items ! 0)) * scale)"
    and th: "0 < py_int (of_nat (img_h (items ! 0)) * scale)"
    and pad: "0 \<le> pad"
    and gw: "0 < grid_cols grid_width (length items)"
  defines "G \<equiv> nat (grid_cols grid_width (length items))"
    and "M \<equiv> nat (ceil_div (int (length items)) (grid_cols grid_width (length items)))"
    and "hh \<equiv> nat (py_int (of_nat (img_h (items ! 0)) * scale))"
    and "ww \<equiv> nat (py_int (of_nat (img_w (items ! 0)) * scale))"
  shows "\<exists>out. mosaic R items scale pad grid_width = Inr out
           \<and> img_h out = M * (hh + 2 * nat pad) \<and> img_w out = G * (ww + 2 * nat pad)
           \<and> (\<forall>r < M * (hh + 2 * nat pad). \<forall>c < G * (ww + 2 * nat pad).
                img_at out r c
                  = img_at (padded (nat pad)
                             (cell R items hh ww
                                (r div (hh + 2 * nat pad) * G + c div (ww + 2 * nat pad))))
                      (r mod (hh + 2 * nat pad)) (c mod (ww + 2 * nat pad)))
           \<and> (G = 1 \<and> M = 1 \<longrightarrow> out = padded (nat pad) (cell R items hh ww 0))"
proof -
  define T where "T = map (\<lambda>k. padded (nat pad) (cell R items hh ww k)) [0..<G * M]"
  define rows where "rows = map (\<lambda>k. \<lparr>img_h = hh + 2 * nat pad, img_w = G * (ww + 2 * nat pad),
                              img_at = hcat_at (take G (drop (k * G) T))\<rparr>) [0..<M]"
  define out where "out = (if 1 < M
                  then \<lparr>img_h = M * (hh + 2 * nat pad), img_w = G * (ww + 2 * nat pad),
                        img_at = vcat_at rows\<rparr>
                  else rows ! 0)"
  let ?TH = "hh + 2 * nat pad" and ?TW = "ww + 2 * nat pad"
  have res: "mosaic R items scale pad grid_width = Inr out"
    using mosaic_eval(1) [OF ne pos tw th pad gw, where R = R]
    unfolding out_def rows_def T_def G_def M_def hh_def ww_def .
  have Gpos: "0 < G" and Mpos: "0 < M"
    using mosaic_eval(2,3) [OF ne pos tw th pad gw] by (simp_all add: G_def M_def)
  have hhpos: "0 < hh" using th by (simp add: hh_def)
  have wwpos: "0 < ww" using tw by (simp add: ww_def)
  have lenrows: "length rows = M" by (simp add: rows_def)
  have row: "rows ! k = \<lparr>img_h = ?TH, img_w = G * ?TW, img_at = hcat_at (take G (drop (k * G) T))\<rparr>"
    if "k < M" for k
    using that by (simp add: rows_def)
  have shape: "img_h out = M * ?TH \<and> img_w out = G * ?TW"
  proof (cases "1 < M")
    case True
    then show ?thesis by (simp add: out_def)
  next
    case False
    with Mpos have "M = 1" by simp
    with False row [of 0] show ?thesis by (simp add: out_def)
  qed
  have chunk: "hcat_at (take G (drop (k * G) T)) r c
                 = img_at (padded (nat pad) (cell R items hh ww (k * G + c div ?TW))) r (c mod ?TW)"
    if k: "k < M" and c: "c < G * ?TW" for k r c
  proof -
    from k have "Suc k * G \<le> M * G" by (intro mult_le_mono1) simp
    then have fit: "k * G + G \<le> length T" by (simp add: T_def mult.commute)
    then have len: "length (take G (drop (k * G) T)) = G" by simp
    have w: "\<forall>t \<in> set (take G (drop (k * G) T)). img_w t = ?TW"
    proof
      fix t assume "t \<in> set (take G (drop (k * G) T))"
      then have "t \<in> set T" by (meson in_set_dropD in_set_takeD)
      then show "img_w t = ?TW" by (auto simp: T_def padded_shape cell_shape)
    qed
    have j: "c div ?TW < G" using c wwpos by (simp add: less_mult_imp_div_less mult.commute)
    have "hcat_at (take G (drop (k * G) T)) r c
            = img_at (take G (drop (k * G) T) ! (c div ?TW)) r (c mod ?TW)"
    proof (rule hcat_at_uniform [OF w])
      show "0 < ?TW" using wwpos by simp
      show "c < length (take G (drop (k * G) T)) * ?TW" unfolding len by (rule c)
    qed
    also have "take G (drop (k * G) T) ! (c div ?TW) = T ! (k * G + c div ?TW)"
      using j fit by simp
    also have "T ! (k * G + c div ?TW) = padded (nat pad) (cell R items hh ww (k * G + c div ?TW))"
    proof -
      have "k * G + c div ?TW < G * M" using j fit by (simp add: T_def)
      then show ?thesis by (simp add: T_def)
    qed
    finally show ?thesis .
  qed
  have px: "img_at out r c
              = img_at (padded (nat pad) (cell R items hh ww (r div ?TH * G + c div ?TW)))
                  (r mod ?TH) (c mod ?TW)"
    if r: "r < M * ?TH" and c: "c < G * ?TW" for r c
  proof (cases "1 < M")
    case True
    have hs: "\<forall>t \<in> set rows. img_h t = ?TH" by (auto simp: rows_def)
    have k: "r div ?TH < M" using r hhpos by (simp add: less_mult_imp_div_less mult.commute)
    have "img_at out r c = vcat_at rows r c" using True by (simp add: out_def)
    also have "\<dots> = img_at (rows ! (r div ?TH)) (r mod ?TH) c"
      using r hhpos by (intro vcat_at_uniform [OF hs]) (simp_all add: lenrows)
    also have "\<dots> = hcat_at (take G (drop (r div ?TH * G) T)) (r mod ?TH) c"
      by (simp add: row [OF k])
    also have "\<dots> = img_at (padded (nat pad) (cell R items hh ww (r div ?TH * G + c div ?TW)))
                  (r mod ?TH) (c mod ?TW)"
      by (rule chunk [OF k c])
    finally show ?thesis .
  next
    case False
    with Mpos have M1: "M = 1" by simp
    with r have r': "r < ?TH" by simp
    have "img_at out r c = hcat_at (take G (drop (0 * G) T)) r c"
      using False row [of 0] M1 by (simp add: out_def)
    also have "\<dots> = img_at (padded (nat pad) (cell R items hh ww (0 * G + c div ?TW))) r (c mod ?TW)"
      using M1 c by (intro chunk) simp_all
    finally show ?thesis using r' by simp
  qed
  have single: "out = padded (nat pad) (cell R items hh ww 0)" if "G = 1 \<and> M = 1"
  proof -
    from that have T1: "T = [padded (nat pad) (cell R items hh ww 0)]" by (simp add: T_def)
    from that have "out = rows ! 0" by (simp add: out_def)
    also have "\<dots> = \<lparr>img_h = ?TH, img_w = G * ?TW, img_at = hcat_at (take G (drop (0 * G) T))\<rparr>"
      using that by (intro row) simp
    also have "\<dots> = padded (nat pad) (cell R items hh ww 0)"
      using that by (simp add: T1 hcat_at_single padded_shape cell_shape)
    finally show ?thesis .
  qed
  from res shape px single show ?thesis by blast
qed


section \<open>The mosaic: the default grid width\<close>

lemma ceil_sqrt_least:
  "n \<le> ceil_sqrt n * ceil_sqrt n \<and> (\<forall>k. k < ceil_sqrt n \<longrightarrow> k * k < n)"
proof -
  let ?P = "\<lambda>k. k * k < n"
  let ?m = "length (takeWhile ?P [0..<n])"
  have le: "?m \<le> n" using length_takeWhile_le [of ?P "[0..<n]"] by simp
  have below: "k * k < n" if "k < ?m" for k
  proof -
    from that have "takeWhile ?P [0..<n] ! k \<in> set (takeWhile ?P [0..<n])" by simp
    moreover from that le have "takeWhile ?P [0..<n] ! k = k"
      by (simp add: takeWhile_nth)
    ultimately have "k \<in> set (takeWhile ?P [0..<n])" by simp
    then show ?thesis by (auto dest: set_takeWhileD)
  qed
  have "n \<le> ?m * ?m"
  proof (cases "?m < n")
    case True
    then have "\<not> ?P ([0..<n] ! ?m)" by (intro nth_length_takeWhile) simp
    with True show ?thesis by simp
  next
    case False
    with le have "?m = n" by simp
    then show ?thesis by (metis le_square)
  qed
  with below show ?thesis by (simp add: ceil_sqrt_def)
qed

lemma ceil_sqrt_ceiling: "int (ceil_sqrt n) = \<lceil>sqrt (real n)\<rceil>"
proof (rule sym, rule ceiling_unique)
  let ?m = "ceil_sqrt n"
  from ceil_sqrt_least [of n] have up: "n \<le> ?m * ?m" by simp
  then have "real n \<le> (real ?m)\<^sup>2"
    by (metis of_nat_le_iff of_nat_mult power2_eq_square)
  then have "sqrt (real n) \<le> real ?m" by (intro real_le_lsqrt) simp_all
  then show "sqrt (real n) \<le> of_int (int ?m)" by simp
  show "of_int (int ?m) - 1 < sqrt (real n)"
  proof (cases ?m)
    case 0
    then show ?thesis by (simp add: less_le_trans [of _ 0])
  next
    case (Suc k)
    with ceil_sqrt_least [of n] have "k * k < n" by simp
    then have "(real k)\<^sup>2 < real n"
      by (metis of_nat_less_iff of_nat_mult power2_eq_square)
    then have "real k < sqrt (real n)" by (rule real_less_rsqrt)
    with Suc show ?thesis by simp
  qed
qed

lemma neg_range_empty:
  assumes "g < 0" and "0 \<le> L"
  shows "py_range 0 L g = Inr []"
proof -
  have "(0 - L - g - 1) div (- g) \<le> (- g - 1) div (- g)"
    using assms by (intro zdiv_mono1) simp_all
  also have "(- g - 1) div (- g) = 0" using assms(1) by (simp add: div_pos_pos_trivial)
  finally have "nat ((0 - L - g - 1) div (- g)) = 0" by simp
  with assms(1) show ?thesis by (simp add: py_range_def)
qed


text \<open>
  Claim C2, as the code has it. Take a non-empty list of non-empty images, a scale
  for which the target size \<open>(int(W * s), int(H * s))\<close> of the first image's shape
  \<open>(H, W)\<close> is positive, a non-negative pad and a positive number of columns
  \<open>grid_cols\<close> (the given width, or the ceiling of the square root of the number
  of images when the width is omitted or zero). Then \<open>mosaic\<close> returns an array of
  height \<open>grid_height * (int(H * s) + 2 * pad)\<close> and width
  \<open>grid_cols * (int(W * s) + 2 * pad)\<close> with \<open>grid_height = ceil(N / grid_cols)\<close>.
  Its pixel at a position is the pixel of the padded tile of that grid cell: the
  resized input for a cell below \<open>N\<close>, black for a cell beyond, each with a zero
  border of \<open>pad\<close> pixels. For one image in a grid of one column the result is the
  padded, resized tile itself.
\<close>

theorem mosaic_grid:
  fixes R :: raster
  assumes "items \<noteq> []"
    and "\<forall>im \<in> set items. 0 < img_h im \<and> 0 < img_w im"
    and "0 < py_int (of_nat (img_w (items ! 0)) * scale)"
    and "0 < py_int (of_nat (img_h (items ! 0)) * scale)"
    and "0 \<le> pad"
    and "0 < grid_cols grid_width (length items)"
  defines "gw \<equiv> grid_cols grid_width (length items)"
    and "th \<equiv> py_int (of_nat (img_h (items ! 0)) * scale)"
    and "tw \<equiv> py_int (of_nat (img_w (items ! 0)) * scale)"
  shows "(\<exists>out. mosaic R items scale pad grid_width = Inr out
           \<and> int (img_h out) = ceil_div (int (length items)) gw * (th + 2 * pad)
           \<and> int (img_w out) = gw * (tw + 2 * pad)
           \<and> (\<forall>r < img_h out. \<forall>c < img_w out.
                img_at out r c
                  = img_at (padded (nat pad)
                             (cell R items (nat th) (nat tw)
                                (r div nat (th + 2 * pad) * nat gw + c div nat (tw + 2 * pad))))
                      (r mod nat (th + 2 * pad)) (c mod nat (tw + 2 * pad)))
           \<and> (length items = 1 \<and> gw = 1 \<longrightarrow>
                out = padded (nat pad) (resized R (items ! 0) (nat th) (nat tw))))
       \<and> grid_cols None (length items) = \<lceil>sqrt (real (length items))\<rceil>
       \<and> grid_cols (Some 0) (length items) = \<lceil>sqrt (real (length items))\<rceil>
       \<and> (\<forall>g. g \<noteq> 0 \<longrightarrow> grid_cols (Some g) (length items) = g)"
proof (intro conjI)
  let ?G = "nat gw" and ?M = "nat (ceil_div (int (length items)) gw)"
  let ?hh = "nat th" and ?ww = "nat tw"
  from mosaic_pixels [OF assms(1-6), where R = R]
  obtain out where res: "mosaic R items scale pad grid_width = Inr out"
    and hh: "img_h out = ?M * (?hh + 2 * nat pad)"
    and ww: "img_w out = ?G * (?ww + 2 * nat pad)"
    and px: "\<forall>r < ?M * (?hh + 2 * nat pad). \<forall>c < ?G * (?ww + 2 * nat pad).
                img_at out r c
                  = img_at (padded (nat pad)
                             (cell R items ?hh ?ww
                                (r div (?hh + 2 * nat pad) * ?G + c div (?ww + 2 * nat pad))))
                      (r mod (?hh + 2 * nat pad)) (c mod (?ww + 2 * nat pad))"
    and one: "?G = 1 \<and> ?M = 1 \<longrightarrow> out = padded (nat pad) (cell R items ?hh ?ww 0)"
    unfolding gw_def th_def tw_def by blast
  have gpos: "0 < gw" using assms(6) by (simp add: gw_def)
  have thpos: "0 < th" and twpos: "0 < tw" using assms(3,4) by (simp_all add: th_def tw_def)
  have mpos: "0 < ceil_div (int (length items)) gw"
    using gpos assms(1) by (intro ceil_div_pos) simp_all
  have TH: "?hh + 2 * nat pad = nat (th + 2 * pad)" using thpos assms(5) by simp
  have TW: "?ww + 2 * nat pad = nat (tw + 2 * pad)" using twpos assms(5) by simp
  have h_int: "int (img_h out) = ceil_div (int (length items)) gw * (th + 2 * pad)"
    using mpos thpos assms(5) by (simp add: hh TH)
  have w_int: "int (img_w out) = gw * (tw + 2 * pad)"
    using gpos twpos assms(5) by (simp add: ww TW)
  have single: "out = padded (nat pad) (resized R (items ! 0) ?hh ?ww)"
    if "length items = 1 \<and> gw = 1"
  proof -
    from that have "?G = 1 \<and> ?M = 1" by (simp add: ceil_div_def)
    with one have "out = padded (nat pad) (cell R items ?hh ?ww 0)" by blast
    with that show ?thesis by (simp add: cell_def)
  qed
  show "\<exists>out. mosaic R items scale pad grid_width = Inr out
           \<and> int (img_h out) = ceil_div (int (length items)) gw * (th + 2 * pad)
           \<and> int (img_w out) = gw * (tw + 2 * pad)
           \<and> (\<forall>r < img_h out. \<forall>c < img_w out.
                img_at out r c
                  = img_at (padded (nat pad)
                             (cell R items (nat th) (nat tw)
                                (r div nat (th + 2 * pad) * nat gw + c div nat (tw + 2 * pad))))
                      (r mod nat (th + 2 * pad)) (c mod nat (tw + 2 * pad)))
           \<and> (length items = 1 \<and> gw = 1 \<longrightarrow>
                out = padded (nat pad) (resized R (items ! 0) (nat th) (nat tw)))"
  proof (intro exI [of _ out] conjI impI)
    show "mosaic R items scale pad grid_width = Inr out" by (rule res)
    show "int (img_h out) = ceil_div (int (length items)) gw * (th + 2 * pad)" by (rule h_int)
    show "int (img_w out) = gw * (tw + 2 * pad)" by (rule w_int)
    show "\<forall>r < img_h out. \<forall>c < img_w out.
                img_at out r c
                  = img_at (padded (nat pad)
                             (cell R items (nat th) (nat tw)
                                (r div nat (th + 2 * pad) * nat gw + c div nat (tw + 2 * pad))))
                      (r mod nat (th + 2 * pad)) (c mod nat (tw + 2 * pad))"
      using px unfolding hh ww TH TW .
    assume "length items = 1 \<and> gw = 1"
    then show "out = padded (nat pad) (resized R (items ! 0) (nat th) (nat tw))" by (rule single)
  qed
  show "grid_cols None (length items) = \<lceil>sqrt (real (length items))\<rceil>"
    by (simp add: grid_cols_def ceil_sqrt_ceiling)
  show "grid_cols (Some 0) (length items) = \<lceil>sqrt (real (length items))\<rceil>"
    by (simp add: grid_cols_def ceil_sqrt_ceiling)
  show "\<forall>g. g \<noteq> 0 \<longrightarrow> grid_cols (Some g) (length items) = g"
    by (simp add: grid_cols_def)
qed

theorem mosaic_grid_witness:
  "result_shape (mosaic vertex_raster [dot_a, dot_b] 1 1 None) = Inr (4, 8)"
proof -
  have h1: "[dot_a, dot_b] \<noteq> []" by simp
  have h2: "\<forall>im \<in> set [dot_a, dot_b]. 0 < img_h im \<and> 0 < img_w im"
    by (simp add: dot_a_def dot_b_def set_px_def black_def)
  have tw: "py_int (of_nat (img_w ([dot_a, dot_b] ! 0)) * 1) = 2"
    by (simp add: dot_a_def set_px_def black_def py_int_def)
  have th: "py_int (of_nat (img_h ([dot_a, dot_b] ! 0)) * 1) = 2"
    by (simp add: dot_a_def set_px_def black_def py_int_def)
  have g: "grid_cols None (length [dot_a, dot_b]) = 2" by code_simp
  have cd: "ceil_div (int (length [dot_a, dot_b])) 2 = 1" by code_simp
  have h3: "0 < py_int (of_nat (img_w ([dot_a, dot_b] ! 0)) * 1)" unfolding tw by simp
  have h4: "0 < py_int (of_nat (img_h ([dot_a, dot_b] ! 0)) * 1)" unfolding th by simp
  have h5: "(0 :: int) \<le> 1" by simp
  have h6: "0 < grid_cols None (length [dot_a, dot_b])" unfolding g by simp
  from mosaic_grid [OF h1 h2 h3 h4 h5 h6, where R = vertex_raster, THEN conjunct1]
  obtain out where res: "mosaic vertex_raster [dot_a, dot_b] 1 1 None = Inr out"
    and hh: "int (img_h out) = ceil_div (int (length [dot_a, dot_b]))
                                 (grid_cols None (length [dot_a, dot_b]))
                               * (py_int (of_nat (img_h ([dot_a, dot_b] ! 0)) * 1) + 2 * 1)"
    and ww: "int (img_w out) = grid_cols None (length [dot_a, dot_b])
                               * (py_int (of_nat (img_w ([dot_a, dot_b] ! 0)) * 1) + 2 * 1)"
    by blast
  from hh have "img_h out = 4" unfolding g th cd by simp
  moreover from ww have "img_w out = 8" unfolding g tw by simp
  ultimately show ?thesis by (simp add: res result_shape_def)
qed

theorem mosaic_grid_counterexample:
  "result_shape (mosaic vertex_raster [dot_a] 1 0 (Some 2)) = Inr (2, 4)
   \<and> result_shape (Inr (padded 0 (resized vertex_raster dot_a 2 2))) = Inr (2, 2)
   \<and> result_shape (mosaic vertex_raster [dot_a] 1 0 (Some 0)) = Inr (2, 2)
   \<and> result_shape (mosaic vertex_raster [dot_a] 0 0 None) = Inl CvError
   \<and> result_shape (mosaic vertex_raster [dot_a] 1 (- 1) None) = Inl CvError"
  by code_simp

text \<open>
  Claim C6, as the code has it. An empty list fails the assertion. A negative grid
  width makes the call fail (the list of rows is empty and reading its first element
  raises, unless the library has failed before). A grid width of zero is not an
  error: it is treated as omitted and the default width is used.
\<close>

theorem mosaic_preconditions:
  "mosaic R [] scale pad grid_width = Inl (AssertionError ''No items to mosaic!'')
   \<and> (g < 0 \<longrightarrow> isl (mosaic R items scale pad (Some g)))
   \<and> mosaic R items scale pad (Some 0) = mosaic R items scale pad None"
proof (intro conjI impI)
  show "mosaic R [] scale pad grid_width = Inl (AssertionError ''No items to mosaic!'')"
    by (simp add: mosaic_def)
  show "mosaic R items scale pad (Some 0) = mosaic R items scale pad None"
    by (simp add: mosaic_def)
  assume "g < 0"
  then show "isl (mosaic R items scale pad (Some g))"
    by (auto simp: mosaic_def Let_def neg_range_empty split: sum.splits)
qed

theorem mosaic_preconditions_witness:
  "isl (mosaic vertex_raster [dot_a] 1 0 (Some (- 1)))
   \<and> mosaic vertex_raster [] 1 0 None = Inl (AssertionError ''No items to mosaic!'')"
proof -
  note t = mosaic_preconditions [of vertex_raster 1 0 None "- 1" "[dot_a]"]
  have neg: "(- 1 :: int) < 0" by simp
  from t [THEN conjunct2, THEN conjunct1, THEN mp, OF neg] t [THEN conjunct1]
  show ?thesis by (rule conjI)
qed

theorem mosaic_zero_width_counterexample:
  "result_shape (mosaic vertex_raster [dot_a, dot_b] 1 0 (Some 0)) = Inr (2, 4)"
  by code_simp

end
